theory Spec2Isabelle
  imports Main "HOL-Library.Word"
begin

section \<open>JavaScript strings\<close>

text \<open>
  A JavaScript string is a sequence of 16-bit code units.  ASCII literals of the source
  are written \<open>js ''...''\<close>.
\<close>

type_synonym jschar = "16 word"
type_synonym jsstring = "jschar list"

definition js :: "string \<Rightarrow> jsstring" where
  "js s = map (\<lambda>c. of_char c) s"

text \<open>\<open>String.prototype.trim\<close>: strips WhiteSpace and LineTerminator code units at both ends.\<close>

definition isWhiteSpace :: "jschar \<Rightarrow> bool" where
  "isWhiteSpace c \<longleftrightarrow>
     c = 0x9 \<or> c = 0xA \<or> c = 0xB \<or> c = 0xC \<or> c = 0xD \<or> c = 0x20 \<or> c = 0xA0 \<or>
     c = 0x1680 \<or> (0x2000 \<le> c \<and> c \<le> 0x200A) \<or> c = 0x2028 \<or> c = 0x2029 \<or>
     c = 0x202F \<or> c = 0x205F \<or> c = 0x3000 \<or> c = 0xFEFF"

definition trim :: "jsstring \<Rightarrow> jsstring" where
  "trim s = rev (dropWhile isWhiteSpace (rev (dropWhile isWhiteSpace s)))"

text \<open>
  \<open>String.prototype.toLowerCase\<close>.  On a string of ASCII code units it lowers the letters
  A to Z and changes nothing else.  On every other string the result is that of the
  Unicode case mappings of the host, which send, for one, U+212A KELVIN SIGN to \<open>k\<close> and
  may change the length of the string; they are the parameter \<open>unicodeLower\<close>.
\<close>

definition isAscii :: "jschar \<Rightarrow> bool" where
  "isAscii c \<longleftrightarrow> c < 0x80"

definition asciiLower :: "jschar \<Rightarrow> jschar" where
  "asciiLower c = (if 0x41 \<le> c \<and> c \<le> 0x5A then c + 0x20 else c)"

definition toLowerCase :: "(jsstring \<Rightarrow> jsstring) \<Rightarrow> jsstring \<Rightarrow> jsstring" where
  "toLowerCase unicodeLower s =
     (if list_all isAscii s then map asciiLower s else unicodeLower s)"

text \<open>\<open>Number::toString\<close> of an integral number (decimal digits, a minus sign when negative).\<close>

fun digits :: "nat \<Rightarrow> jsstring" where
  "digits n = (if n < 10 then [of_nat (48 + n)]
               else digits (n div 10) @ [of_nat (48 + n mod 10)])"

declare digits.simps [simp del]

definition IntToString :: "int \<Rightarrow> jsstring" where
  "IntToString i = (if i < 0 then js ''-'' @ digits (nat (- i)) else digits (nat i))"

section \<open>Dates\<close>

text \<open>
  A \<open>Date\<close> holding a valid time is modelled by its local time value: the number of
  milliseconds of local wall-clock time since 1970-01-01T00:00:00.000, in a time zone
  with a fixed offset (no daylight-saving transitions), without the range limit of
  \<open>TimeClip\<close>.  The functions below are the abstract operations of ECMAScript's
  \<open>Date\<close> objects on such a value.
\<close>

definition msPerDay :: int where "msPerDay = 86400000"
definition msPerHour :: int where "msPerHour = 3600000"
definition msPerMinute :: int where "msPerMinute = 60000"
definition msPerSecond :: int where "msPerSecond = 1000"

definition Day :: "int \<Rightarrow> int" where
  "Day t = t div msPerDay"

definition TimeWithinDay :: "int \<Rightarrow> int" where
  "TimeWithinDay t = t mod msPerDay"

definition DayFromYear :: "int \<Rightarrow> int" where
  "DayFromYear y =
     365 * (y - 1970) + (y - 1969) div 4 - (y - 1901) div 100 + (y - 1601) div 400"

definition InLeapYearOf :: "int \<Rightarrow> bool" where
  "InLeapYearOf y \<longleftrightarrow> y mod 4 = 0 \<and> (y mod 100 \<noteq> 0 \<or> y mod 400 = 0)"

text \<open>
  \<open>YearFromTime t\<close> is the largest year \<open>y\<close> with \<open>TimeFromYear y \<le> t\<close>; it is computed
  from an estimate that is off by at most one (lemma \<open>YearFromDay_bounds\<close>).
\<close>

definition YearFromDay :: "int \<Rightarrow> int" where
  "YearFromDay d =
     (let e = 1970 + (400 * d) div 146097
      in if DayFromYear (e + 1) \<le> d then e + 1
         else if DayFromYear e \<le> d then e
         else e - 1)"

definition YearFromTime :: "int \<Rightarrow> int" where
  "YearFromTime t = YearFromDay (Day t)"

definition DayWithinYear :: "int \<Rightarrow> int" where
  "DayWithinYear t = Day t - DayFromYear (YearFromTime t)"

definition InLeapYear :: "int \<Rightarrow> int" where
  "InLeapYear t = (if InLeapYearOf (YearFromTime t) then 1 else 0)"

definition MonthFromTime :: "int \<Rightarrow> int" where
  "MonthFromTime t =
     (let d = DayWithinYear t; l = InLeapYear t
      in if d < 31 then 0
         else if d < 59 + l then 1
         else if d < 90 + l then 2
         else if d < 120 + l then 3
         else if d < 151 + l then 4
         else if d < 181 + l then 5
         else if d < 212 + l then 6
         else if d < 243 + l then 7
         else if d < 273 + l then 8
         else if d < 304 + l then 9
         else if d < 334 + l then 10
         else 11)"

text \<open>The day within the year on which month \<open>m\<close> (0 to 11) starts.\<close>

definition MonthStart :: "int \<Rightarrow> int \<Rightarrow> int" where
  "MonthStart m l =
     (if m = 0 then 0
      else if m = 1 then 31
      else if m = 2 then 59 + l
      else if m = 3 then 90 + l
      else if m = 4 then 120 + l
      else if m = 5 then 151 + l
      else if m = 6 then 181 + l
      else if m = 7 then 212 + l
      else if m = 8 then 243 + l
      else if m = 9 then 273 + l
      else if m = 10 then 304 + l
      else 334 + l)"

definition DateFromTime :: "int \<Rightarrow> int" where
  "DateFromTime t = DayWithinYear t - MonthStart (MonthFromTime t) (InLeapYear t) + 1"

definition WeekDay :: "int \<Rightarrow> int" where
  "WeekDay t = (Day t + 4) mod 7"

definition HourFromTime :: "int \<Rightarrow> int" where
  "HourFromTime t = (t div msPerHour) mod 24"

definition MinFromTime :: "int \<Rightarrow> int" where
  "MinFromTime t = (t div msPerMinute) mod 60"

definition SecFromTime :: "int \<Rightarrow> int" where
  "SecFromTime t = (t div msPerSecond) mod 60"

definition MakeTime :: "int \<Rightarrow> int \<Rightarrow> int \<Rightarrow> int \<Rightarrow> int" where
  "MakeTime h m s milli = h * msPerHour + m * msPerMinute + s * msPerSecond + milli"

text \<open>
  \<open>MakeDay year month date\<close>: the day number of the first of the month \<open>month mod 12\<close> of
  the year \<open>year + month div 12\<close>, plus \<open>date - 1\<close>.
\<close>

definition MakeDay :: "int \<Rightarrow> int \<Rightarrow> int \<Rightarrow> int" where
  "MakeDay year month date =
     (let ym = year + month div 12; mn = month mod 12
      in DayFromYear ym + MonthStart mn (if InLeapYearOf ym then 1 else 0) + date - 1)"

definition MakeDate :: "int \<Rightarrow> int \<Rightarrow> int" where
  "MakeDate day time = day * msPerDay + time"

subsection \<open>The methods of Date the widgets call\<close>

definition getFullYear :: "int \<Rightarrow> int" where "getFullYear t = YearFromTime t"
definition getMonth :: "int \<Rightarrow> int" where "getMonth t = MonthFromTime t"
definition getDate :: "int \<Rightarrow> int" where "getDate t = DateFromTime t"
definition getDay :: "int \<Rightarrow> int" where "getDay t = WeekDay t"
definition getHours :: "int \<Rightarrow> int" where "getHours t = HourFromTime t"
definition getMinutes :: "int \<Rightarrow> int" where "getMinutes t = MinFromTime t"
definition getSeconds :: "int \<Rightarrow> int" where "getSeconds t = SecFromTime t"

definition setHours :: "int \<Rightarrow> int \<Rightarrow> int \<Rightarrow> int \<Rightarrow> int \<Rightarrow> int" where
  "setHours t h m s milli = MakeDate (Day t) (MakeTime h m s milli)"

definition setDate :: "int \<Rightarrow> int \<Rightarrow> int" where
  "setDate t dt = MakeDate (MakeDay (YearFromTime t) (MonthFromTime t) dt) (TimeWithinDay t)"

text \<open>
  \<open>new Date(year, month, date)\<close>: a year from 0 to 99 stands for 1900 + year; the time of
  day is midnight.
\<close>

definition newDate3 :: "int \<Rightarrow> int \<Rightarrow> int \<Rightarrow> int" where
  "newDate3 year month date =
     (let yr = (if 0 \<le> year \<and> year \<le> 99 then 1900 + year else year)
      in MakeDate (MakeDay yr month date) (MakeTime 0 0 0 0))"

section \<open>time\_range\_picker.js: utility functions\<close>

definition pad2 :: "int \<Rightarrow> jsstring" where
  "pad2 n = (if n < 10 then js ''0'' @ IntToString n else js '''' @ IntToString n)"

definition formatDate :: "int \<Rightarrow> jsstring" where
  "formatDate d =
     IntToString (getFullYear d) @ js ''-'' @ pad2 (getMonth d + 1) @ js ''-'' @ pad2 (getDate d)"

definition formatDateTime :: "int \<Rightarrow> jsstring" where
  "formatDateTime d =
     formatDate d @ js '' '' @ pad2 (getHours d) @ js '':'' @ pad2 (getMinutes d) @ js '':'' @
     pad2 (getSeconds d)"

section \<open>time\_range\_picker.js: quick ranges\<close>

text \<open>
  \<open>computeQuickRange lower key now\<close>: the function of the source, with the clock reading
  \<open>new Date()\<close> of its first lines passed as \<open>now\<close> and the Unicode case mappings of
  the host as \<open>lower\<close>.  The result is the pair \<open>[from, to]\<close>.  The cases are those
  of the \<open>switch\<close>, in its order.
\<close>

definition computeQuickRange :: "(jsstring \<Rightarrow> jsstring) \<Rightarrow> jsstring \<Rightarrow> int \<Rightarrow> int \<times> int" where
  "computeQuickRange lower key0 now =
     (let key = toLowerCase lower (trim key0);
          from0 = now;
          to0 = now
      in if key = js ''today'' then
           (let from = setHours now 0 0 0 0;
                to = setHours now 23 59 59 999
            in (from, to))
         else if key = js ''yesterday'' then
           (let from = setHours (setDate now (getDate now - 1)) 0 0 0 0;
                to = setHours from 23 59 59 999
            in (from, to))
         else if key = js ''this_week'' \<or> key = js ''this week'' then
           (let dayOfWeek = (if getDay now = 0 then 7 else getDay now);
                from = setHours (setDate now (getDate now - (dayOfWeek - 1))) 0 0 0 0;
                to = setHours now 23 59 59 999
            in (from, to))
         else if key = js ''this_month'' \<or> key = js ''this month'' then
           (let from = setHours (newDate3 (getFullYear now) (getMonth now) 1) 0 0 0 0;
                to = setHours (newDate3 (getFullYear now) (getMonth now + 1) 0) 23 59 59 999
            in (from, to))
         else if key = js ''last_12_hours'' then
           (let from = now - 12 * 60 * 60 * 1000 in (from, to0))
         else if key = js ''last_24_hours'' then
           (let from = now - 24 * 60 * 60 * 1000 in (from, to0))
         else if key = js ''last_2_days'' then
           (let to = setHours now 23 59 59 999;
                from = setHours (setDate now (getDate now - 1)) 0 0 0 0
            in (from, to))
         else if key = js ''last_7_days'' then
           (let to = setHours now 23 59 59 999;
                from = setHours (setDate now (getDate now - 6)) 0 0 0 0
            in (from, to))
         else
           (let from = setHours now 0 0 0 0;
                to = setHours now 23 59 59 999
            in (from, to)))"

section \<open>time\_range\_picker.js: the controller\<close>

text \<open>
  The handlers registered on \<open>DOMContentLoaded\<close>, when every required element is
  present, work on the variables \<open>currentFrom\<close>, \<open>currentTo\<close>, \<open>picker\<close> of the closure
  and on the elements of the page.  The state holds those variables and the properties of
  the elements the handlers read or write; \<open>alerts\<close> lists the messages passed to
  \<open>alert\<close> and \<open>submissions\<close> the submissions of \<open>filtersForm\<close>, both in order.
  \<open>currentFrom\<close> and \<open>currentTo\<close> are \<open>null\<close> (\<open>None\<close>) or a valid date.  The
  calendar widget is \<open>null\<close> (\<open>None\<close>) until constructed; then \<open>picker\<close> holds the
  range last passed to its \<open>setDateRange\<close>, if any.
\<close>

datatype submit_kind = RequestSubmit | Submit

record picker_state =
  currentFrom :: "int option"
  currentTo :: "int option"
  picker :: "(int \<times> int) option option"
  fromInput :: jsstring
  toInput :: jsstring
  hiddenFrom :: jsstring
  hiddenTo :: jsstring
  summaryLabel :: jsstring
  panelHidden :: bool
  panelBlock :: bool
  overlayHidden :: bool
  panelLeft :: jsstring
  panelTop :: jsstring
  alerts :: "jsstring list"
  submissions :: "submit_kind list"

text \<open>
  What the handlers take from the host: \<open>parseDate s\<close> is \<open>new Date(s)\<close>, \<open>None\<close> for an
  invalid date; \<open>unicodeLower\<close> is the Unicode lowercasing behind \<open>toLowerCase\<close>; whether
  \<open>window.Litepicker\<close> and \<open>filtersForm.requestSubmit\<close> exist; and the geometry
  \<open>positionPanel\<close> reads, in pixels.

  The calendar widget is a library outside the repository.  \<open>selectedOnSet f t\<close> is what
  its \<open>setDateRange(f, t)\<close> passes to the listeners of \<open>selected\<close>: \<open>None\<close> when the
  call emits no event, otherwise the \<open>dateInstance\<close>s of the two arguments of the event
  (\<open>None\<close> for a missing argument).  Litepicker 2, whose \<open>on\<close> the source calls, emits
  \<open>selected\<close> from \<open>setDateRange\<close> with copies of the two dates it was given.
\<close>

record host =
  parseDate :: "jsstring \<Rightarrow> int option"
  unicodeLower :: "jsstring \<Rightarrow> jsstring"
  selectedOnSet :: "int \<Rightarrow> int \<Rightarrow> (int option \<times> int option) option"
  hasLitepicker :: bool
  hasRequestSubmit :: bool
  btnLeft :: int
  btnBottom :: int
  panelWidth :: int
  panelHeight :: int
  scrollX :: int
  scrollY :: int
  innerWidth :: int
  innerHeight :: int

text \<open>\<open>s.replace(" ", "T")\<close>: the first occurrence only.\<close>

fun replaceFirst :: "jschar \<Rightarrow> jschar \<Rightarrow> jsstring \<Rightarrow> jsstring" where
  "replaceFirst a b [] = []"
| "replaceFirst a b (c # cs) = (if c = a then b # cs else c # replaceFirst a b cs)"

definition spaceToT :: "jsstring \<Rightarrow> jsstring" where
  "spaceToT s = replaceFirst 0x20 0x54 s"

text \<open>The separator of the summary label: a space, U+2192 and a space.\<close>

definition arrow :: jsstring where
  "arrow = [0x20, 0x2192, 0x20]"

definition parseDT :: "host \<Rightarrow> jsstring \<Rightarrow> int option" where
  "parseDT h s =
     (case parseDate h (spaceToT s) of
        Some dt \<Rightarrow> Some dt
      | None \<Rightarrow>
          (case parseDate h s of
             Some d \<Rightarrow> Some (setHours d 0 0 0 0)
           | None \<Rightarrow> None))"

definition initFromHidden :: "host \<Rightarrow> picker_state \<Rightarrow> picker_state" where
  "initFromHidden h s =
     (let s1 = (if hiddenFrom s \<noteq> [] then s\<lparr>currentFrom := parseDT h (hiddenFrom s)\<rparr> else s);
          s2 = (if hiddenTo s1 \<noteq> [] then s1\<lparr>currentTo := parseDT h (hiddenTo s1)\<rparr> else s1)
      in case (currentFrom s2, currentTo s2) of
           (Some f, Some t) \<Rightarrow>
             s2\<lparr>fromInput := formatDateTime f,
                toInput := formatDateTime t,
                summaryLabel := formatDateTime f @ arrow @ formatDateTime t\<rparr>
         | _ \<Rightarrow> s2)"

definition positionPanel :: "host \<Rightarrow> picker_state \<Rightarrow> picker_state" where
  "positionPanel h s =
     (let left0 = scrollX h + btnLeft h;
          top0 = scrollY h + btnBottom h + 8;
          left = (if left0 + panelWidth h > innerWidth h - 10
                  then innerWidth h - panelWidth h - 10 else left0);
          maxTop = scrollY h + innerHeight h - panelHeight h - 10;
          top1 = (if top0 > maxTop then maxTop else top0);
          top = (if top1 < 20 then 20 else top1)
      in s\<lparr>panelLeft := IntToString left @ js ''px'',
            panelTop := IntToString top @ js ''px''\<rparr>)"

text \<open>
  The \<open>selected\<close> handler the source registers on the widget; \<open>date1\<close> and \<open>date2\<close>
  are the \<open>dateInstance\<close>s of its two arguments, \<open>None\<close> for a missing argument.  Its
  \<open>setHours\<close> change the two \<open>Date\<close> objects it was given, which the closure's variables
  then hold.
\<close>

definition onSelected :: "int option \<Rightarrow> int option \<Rightarrow> picker_state \<Rightarrow> picker_state" where
  "onSelected date1 date2 s =
     (case (date1, date2) of
        (Some d1, Some d2) \<Rightarrow>
          (let d1' = setHours d1 0 0 0 0;
               d2' = setHours d2 23 59 59 999
           in s\<lparr>currentFrom := Some d1',
                 currentTo := Some d2',
                 fromInput := formatDateTime d1',
                 toInput := formatDateTime d2'\<rparr>)
      | _ \<Rightarrow> s)"

text \<open>
  \<open>picker.setDateRange(f, t)\<close> on a widget that has the \<open>selected\<close> handler: the widget
  takes the range, and when it emits \<open>selected\<close> the handler runs within the call.
\<close>

definition setDateRange :: "host \<Rightarrow> int \<Rightarrow> int \<Rightarrow> picker_state \<Rightarrow> picker_state" where
  "setDateRange h f t s =
     (let s1 = s\<lparr>picker := Some (Some (f, t))\<rparr>
      in case selectedOnSet h f t of
           None \<Rightarrow> s1
         | Some (date1, date2) \<Rightarrow> onSelected date1 date2 s1)"

text \<open>
  \<open>openPanel\<close>.  The \<open>setup\<close> callback runs while the widget is constructed, before
  the \<open>selected\<close> handler is registered, so its \<open>setDateRange\<close> reaches no handler; the
  call after the construction does.
\<close>

definition openPanel :: "host \<Rightarrow> picker_state \<Rightarrow> picker_state" where
  "openPanel h s =
     (let s1 = s\<lparr>overlayHidden := False, panelHidden := False, panelBlock := True\<rparr>;
          s2 = positionPanel h s1;
          s3 = (if hasLitepicker h \<and> picker s2 = None
                then s2\<lparr>picker :=
                       Some (case (currentFrom s2, currentTo s2) of
                               (Some f, Some t) \<Rightarrow> Some (f, t)
                             | _ \<Rightarrow> None)\<rparr>
                else s2)
      in case (picker s3, currentFrom s3, currentTo s3) of
           (Some _, Some f, Some t) \<Rightarrow> setDateRange h f t s3
         | _ \<Rightarrow> s3)"

definition closePanel :: "picker_state \<Rightarrow> picker_state" where
  "closePanel s = s\<lparr>panelHidden := True, overlayHidden := True\<rparr>"

text \<open>
  The click handler of a quick-range button with attribute \<open>data-quick-range\<close> equal to
  \<open>key\<close>, at clock reading \<open>now\<close>.
\<close>

definition quickRangeClick :: "host \<Rightarrow> jsstring \<Rightarrow> int \<Rightarrow> picker_state \<Rightarrow> picker_state" where
  "quickRangeClick h key now s =
     (case computeQuickRange (unicodeLower h) key now of
        (from, to) \<Rightarrow>
          (let s1 = s\<lparr>currentFrom := Some from,
                       currentTo := Some to,
                       fromInput := formatDateTime from,
                       toInput := formatDateTime to\<rparr>
           in if picker s1 \<noteq> None then setDateRange h from to s1 else s1))"

text \<open>The click handler of the apply button.\<close>

definition applyClick :: "host \<Rightarrow> picker_state \<Rightarrow> picker_state" where
  "applyClick h s =
     (if fromInput s = [] \<or> toInput s = [] then
        s\<lparr>alerts := alerts s @ [js ''Please enter valid 'From' and 'To'.'']\<rparr>
      else
        case (parseDate h (spaceToT (fromInput s)), parseDate h (spaceToT (toInput s))) of
          (Some from, Some to) \<Rightarrow>
            if from > to then
              s\<lparr>alerts := alerts s @ [js '''From' must be before 'To'.'']\<rparr>
            else
              (let s1 = s\<lparr>currentFrom := Some from, currentTo := Some to\<rparr>;
                   s2 = s1\<lparr>hiddenFrom := formatDateTime from\<rparr>;
                   s3 = s2\<lparr>hiddenTo := formatDateTime to\<rparr>;
                   s4 = s3\<lparr>summaryLabel := hiddenFrom s3 @ arrow @ hiddenTo s3\<rparr>;
                   s5 = closePanel s4
               in s5\<lparr>submissions := submissions s5 @
                         [if hasRequestSubmit h then RequestSubmit else Submit]\<rparr>)
        | _ \<Rightarrow> s\<lparr>alerts := alerts s @ [js ''Invalid date/time.'']\<rparr>)"

subsection \<open>A date parser for the concrete inputs\<close>

text \<open>
  The form \<open>YYYY-MM-DDTHH:mm:ss\<close> of the ECMAScript date-time
  string format, read as local time; every other string is an invalid date under this
  parser.  The handlers take the parser of the host, whatever it accepts.
\<close>

definition digitVal :: "jschar \<Rightarrow> int option" where
  "digitVal c = (if 0x30 \<le> c \<and> c \<le> 0x39 then Some (int (unat c) - 48) else None)"

fun digitsVal :: "jsstring \<Rightarrow> int option" where
  "digitsVal [] = Some 0"
| "digitsVal (c # cs) =
     (case (digitVal c, digitsVal cs) of
        (Some d, Some r) \<Rightarrow> Some (d * 10 ^ length cs + r)
      | _ \<Rightarrow> None)"

definition isoLocalParse :: "jsstring \<Rightarrow> int option" where
  "isoLocalParse s =
     (if length s = 19 \<and> s ! 4 = 0x2D \<and> s ! 7 = 0x2D \<and> s ! 10 = 0x54 \<and> s ! 13 = 0x3A \<and>
         s ! 16 = 0x3A
      then
        (case (digitsVal (take 4 s), digitsVal (take 2 (drop 5 s)), digitsVal (take 2 (drop 8 s)),
               digitsVal (take 2 (drop 11 s)), digitsVal (take 2 (drop 14 s)),
               digitsVal (take 2 (drop 17 s))) of
           (Some y, Some mo, Some d, Some hh, Some mi, Some ss) \<Rightarrow>
             if 1 \<le> mo \<and> mo \<le> 12 \<and> 1 \<le> d \<and> d \<le> 31 \<and> mi \<le> 59 \<and> ss \<le> 59 \<and>
                (hh \<le> 23 \<or> (hh = 24 \<and> mi = 0 \<and> ss = 0))
             then Some (MakeDate (MakeDay y (mo - 1) d) (MakeTime hh mi ss 0))
             else None
         | _ \<Rightarrow> None)
      else None)"

subsection \<open>A page and a host for the concrete inputs\<close>

definition examplePage :: picker_state where
  "examplePage = \<lparr>currentFrom = None, currentTo = None, picker = None,
     fromInput = js ''2024-05-10 10:00:00'', toInput = js ''2024-05-09 10:00:00'',
     hiddenFrom = js ''2024-05-01 00:00:00'', hiddenTo = js ''2024-05-02 23:59:59'',
     summaryLabel = js ''Select range'', panelHidden = False, panelBlock = True,
     overlayHidden = False, panelLeft = js ''0px'', panelTop = js ''20px'',
     alerts = [], submissions = []\<rparr>"

text \<open>
  The host of the concrete inputs lowers the ASCII letters and the Kelvin sign, and its
  widget emits \<open>selected\<close> from \<open>setDateRange\<close> with the two dates given.
\<close>

definition sampleLower :: "jsstring \<Rightarrow> jsstring" where
  "sampleLower s = map (\<lambda>c. if c = 0x212A then 0x6B else asciiLower c) s"

definition exampleHost :: host where
  "exampleHost = \<lparr>parseDate = isoLocalParse, unicodeLower = sampleLower,
     selectedOnSet = (\<lambda>f t. Some (Some f, Some t)),
     hasLitepicker = True, hasRequestSubmit = True,
     btnLeft = 100, btnBottom = 40, panelWidth = 600, panelHeight = 400,
     scrollX = 0, scrollY = 0, innerWidth = 1280, innerHeight = 720\<rparr>"

section \<open>JSON\<close>

text \<open>
  The values \<open>JSON.parse\<close> produces.  An object holds its own properties in property
  order (the order of \<open>Object.keys\<close> and of \<open>JSON.stringify\<close>): the keys that are array
  indices first, ascending, then the other keys in the order of their creation.

  A number is modelled as an exact decimal, \<open>Num neg s e\<close> for \<open>(-1)^neg * s * 10^e\<close>
  with \<open>s\<close> not divisible by 10 (or \<open>s = 0\<close> and \<open>e = 0\<close>).  The host rounds a literal to
  the nearest double; the model agrees with it on literals of at most 15 significant
  digits within the range of doubles, and does not model the rounding beyond: the literal
  \<open>1e400\<close>, which the host reads as \<open>Infinity\<close> and \<open>JSON.stringify\<close> writes as
  \<open>null\<close>, is the decimal \<open>10^400\<close> here and is written \<open>1e+400\<close>, and
  \<open>0.1000000000000000055\<close>, which the host reads as \<open>0.1\<close>, keeps its digits.  Nothing
  below is stated about the numeric value of such a literal.
\<close>

datatype jsnum = Num bool nat int

datatype json =
    JNull
  | JBool bool
  | JNum jsnum
  | JStr jsstring
  | JArr "json list"
  | JObj "(jsstring \<times> json) list"

subsection \<open>Property order\<close>

definition isDigit :: "jschar \<Rightarrow> bool" where
  "isDigit c \<longleftrightarrow> 0x30 \<le> c \<and> c \<le> 0x39"

fun natOfDigits :: "nat \<Rightarrow> jsstring \<Rightarrow> nat" where
  "natOfDigits acc [] = acc"
| "natOfDigits acc (c # cs) = natOfDigits (10 * acc + (unat c - 48)) cs"

definition indexOf :: "jsstring \<Rightarrow> int" where
  "indexOf k = int (natOfDigits 0 k)"

text \<open>An array index: the canonical decimal form of an integer from 0 to \<open>2^32 - 2\<close>.\<close>

definition isArrayIndex :: "jsstring \<Rightarrow> bool" where
  "isArrayIndex k \<longleftrightarrow>
     k \<noteq> [] \<and> list_all isDigit k \<and> (hd k \<noteq> 0x30 \<or> length k = 1) \<and> length k \<le> 10 \<and>
     indexOf k \<le> 4294967294"

fun insertIndex :: "jsstring \<Rightarrow> json \<Rightarrow> (jsstring \<times> json) list \<Rightarrow> (jsstring \<times> json) list" where
  "insertIndex k v [] = [(k, v)]"
| "insertIndex k v ((k', v') # r) =
     (if isArrayIndex k' \<and> indexOf k' < indexOf k
      then (k', v') # insertIndex k v r
      else (k, v) # (k', v') # r)"

text \<open>
  \<open>CreateDataProperty\<close> on an ordinary object: an existing property keeps its place and
  takes the new value; a new one is placed by the property order.
\<close>

definition putProp :: "jsstring \<Rightarrow> json \<Rightarrow> (jsstring \<times> json) list \<Rightarrow> (jsstring \<times> json) list" where
  "putProp k v kvs =
     (if k \<in> set (map fst kvs) then map (\<lambda>(k', v'). if k' = k then (k', v) else (k', v')) kvs
      else if isArrayIndex k then insertIndex k v kvs
      else kvs @ [(k, v)])"

subsection \<open>Numbers\<close>

text \<open>\<open>Number::toString\<close> (radix 10), with \<open>k\<close> the number of digits and \<open>n = k + e\<close>.\<close>

definition NumberToString :: "jsnum \<Rightarrow> jsstring" where
  "NumberToString x =
     (case x of
        Num neg s e \<Rightarrow>
          if s = 0 then js ''0''
          else
            (if neg then js ''-'' else []) @
            (let ds = digits s; k = int (length ds); n = k + e
             in if k \<le> n \<and> n \<le> 21 then ds @ replicate (nat (n - k)) 0x30
                else if 0 < n \<and> n \<le> 21 then take (nat n) ds @ js ''.'' @ drop (nat n) ds
                else if - 6 < n \<and> n \<le> 0 then js ''0.'' @ replicate (nat (- n)) 0x30 @ ds
                else
                  (let ex = (if n - 1 < 0 then js ''-'' else js ''+'') @ digits (nat \<bar>n - 1\<bar>)
                   in if k = 1 then ds @ js ''e'' @ ex
                      else take 1 ds @ js ''.'' @ drop 1 ds @ js ''e'' @ ex)))"

text \<open>
  The JSON number grammar, \<open>-? (0 | [1-9][0-9]*) (. [0-9]+)? ([eE] [+-]? [0-9]+)?\<close>, as
  an automaton.
\<close>

datatype numstate = NStart | NMinus | NZero | NInt | NDot | NFrac | NE | NESign | NExp

fun numStep :: "numstate \<Rightarrow> jschar \<Rightarrow> numstate option" where
  "numStep NStart c =
     (if c = 0x2D then Some NMinus else if c = 0x30 then Some NZero
      else if isDigit c then Some NInt else None)"
| "numStep NMinus c =
     (if c = 0x30 then Some NZero else if isDigit c then Some NInt else None)"
| "numStep NZero c =
     (if c = 0x2E then Some NDot else if c = 0x65 \<or> c = 0x45 then Some NE else None)"
| "numStep NInt c =
     (if isDigit c then Some NInt else if c = 0x2E then Some NDot
      else if c = 0x65 \<or> c = 0x45 then Some NE else None)"
| "numStep NDot c = (if isDigit c then Some NFrac else None)"
| "numStep NFrac c =
     (if isDigit c then Some NFrac else if c = 0x65 \<or> c = 0x45 then Some NE else None)"
| "numStep NE c =
     (if c = 0x2B \<or> c = 0x2D then Some NESign else if isDigit c then Some NExp else None)"
| "numStep NESign c = (if isDigit c then Some NExp else None)"
| "numStep NExp c = (if isDigit c then Some NExp else None)"

fun numRun :: "numstate \<Rightarrow> jsstring \<Rightarrow> numstate option" where
  "numRun q [] = Some q"
| "numRun q (c # cs) = (case numStep q c of None \<Rightarrow> None | Some q' \<Rightarrow> numRun q' cs)"

definition isJsonNumber :: "jsstring \<Rightarrow> bool" where
  "isJsonNumber s \<longleftrightarrow> numRun NStart s \<in> {Some NZero, Some NInt, Some NFrac, Some NExp}"

text \<open>The value of a JSON number: its digits and exponent, trailing zeros removed.\<close>

fun normalize :: "nat \<Rightarrow> int \<Rightarrow> nat \<times> int" where
  "normalize s e =
     (if s = 0 then (0, 0)
      else if s mod 10 = 0 then normalize (s div 10) (e + 1)
      else (s, e))"

declare normalize.simps [simp del]

definition StringToNumber :: "jsstring \<Rightarrow> jsnum" where
  "StringToNumber t =
     (let neg = (t \<noteq> [] \<and> hd t = 0x2D);
          body = (if neg then tl t else t);
          ip = takeWhile isDigit body;
          r1 = dropWhile isDigit body;
          fp = (if r1 \<noteq> [] \<and> hd r1 = 0x2E then takeWhile isDigit (tl r1) else []);
          r2 = (if r1 \<noteq> [] \<and> hd r1 = 0x2E then dropWhile isDigit (tl r1) else r1);
          r3 = (if r2 \<noteq> [] then tl r2 else []);
          eneg = (r3 \<noteq> [] \<and> hd r3 = 0x2D);
          ed = (if r3 \<noteq> [] \<and> (hd r3 = 0x2D \<or> hd r3 = 0x2B) then tl r3 else r3);
          ex = (if eneg then - int (natOfDigits 0 ed) else int (natOfDigits 0 ed))
      in case normalize (natOfDigits 0 (ip @ fp)) (ex - int (length fp)) of
           (s, e) \<Rightarrow> Num neg s e)"

subsection \<open>JSON.stringify\<close>

definition hexDigit :: "nat \<Rightarrow> jschar" where
  "hexDigit n = (if n < 10 then of_nat (48 + n) else of_nat (87 + n))"

text \<open>\<open>UnicodeEscape\<close>: a backslash, \<open>u\<close> and four lowercase hexadecimal digits.\<close>

definition UnicodeEscape :: "jschar \<Rightarrow> jsstring" where
  "UnicodeEscape c =
     [0x5C, 0x75, hexDigit (unat c div 4096), hexDigit (unat c div 256 mod 16),
      hexDigit (unat c div 16 mod 16), hexDigit (unat c mod 16)]"

definition isLeadingSurrogate :: "jschar \<Rightarrow> bool" where
  "isLeadingSurrogate c \<longleftrightarrow> 0xD800 \<le> c \<and> c \<le> 0xDBFF"

definition isTrailingSurrogate :: "jschar \<Rightarrow> bool" where
  "isTrailingSurrogate c \<longleftrightarrow> 0xDC00 \<le> c \<and> c \<le> 0xDFFF"

definition quoteUnit :: "jschar \<Rightarrow> jsstring" where
  "quoteUnit c =
     (if c = 0x8 then [0x5C, 0x62] else if c = 0x9 then [0x5C, 0x74] else if c = 0xA then [0x5C, 0x6E]
      else if c = 0xC then [0x5C, 0x66] else if c = 0xD then [0x5C, 0x72]
      else if c = 0x22 then [0x5C, 0x22] else if c = 0x5C then [0x5C, 0x5C]
      else if c < 0x20 \<or> isLeadingSurrogate c \<or> isTrailingSurrogate c then UnicodeEscape c
      else [c])"

text \<open>
  The body of \<open>QuoteJSONString\<close>: code point by code point, a surrogate pair kept as it
  is and a lone surrogate escaped.
\<close>

fun quoteBody :: "jsstring \<Rightarrow> jsstring" where
  "quoteBody [] = []"
| "quoteBody [c] = quoteUnit c"
| "quoteBody (c # d # cs) =
     (if isLeadingSurrogate c \<and> isTrailingSurrogate d then c # d # quoteBody cs
      else quoteUnit c @ quoteBody (d # cs))"

definition QuoteJSONString :: "jsstring \<Rightarrow> jsstring" where
  "QuoteJSONString s = 0x22 # quoteBody s @ [0x22]"

fun joinWith :: "jsstring \<Rightarrow> jsstring list \<Rightarrow> jsstring" where
  "joinWith sep [] = []"
| "joinWith sep [x] = x"
| "joinWith sep (x # y # ys) = x @ sep @ joinWith sep (y # ys)"

fun JSON_stringify :: "json \<Rightarrow> jsstring" where
  "JSON_stringify JNull = js ''null''"
| "JSON_stringify (JBool b) = (if b then js ''true'' else js ''false'')"
| "JSON_stringify (JNum x) = NumberToString x"
| "JSON_stringify (JStr s) = QuoteJSONString s"
| "JSON_stringify (JArr xs) = js ''['' @ joinWith (js '','') (map JSON_stringify xs) @ js '']''"
| "JSON_stringify (JObj kvs) =
     js ''{'' @
     joinWith (js '','')
       (map (\<lambda>kv. QuoteJSONString (fst kv) @ js '':'' @ JSON_stringify (snd kv)) kvs) @
     js ''}''"

subsection \<open>JSON.parse\<close>

text \<open>
  The lexer reads the text one code unit at a time.  A number or a literal name is the
  longest run of number characters or of lowercase letters, checked when the run ends:
  in a JSON text every number and literal is followed by white space, a comma, a closing
  bracket or the end of the text, and a text in which a run is not one token is
  rejected by the grammar as well.
\<close>

datatype token =
    TLBrace | TRBrace | TLBrack | TRBrack | TColon | TComma
  | TString jsstring | TNumber jsnum | TTrue | TFalse | TNull

datatype lexmode =
    MTop
  | MStr jsstring
  | MEsc jsstring
  | MHex jsstring "nat list"
  | MNum jsstring
  | MWord jsstring

definition isJsonSpace :: "jschar \<Rightarrow> bool" where
  "isJsonSpace c \<longleftrightarrow> c = 0x9 \<or> c = 0xA \<or> c = 0xD \<or> c = 0x20"

definition isNumberChar :: "jschar \<Rightarrow> bool" where
  "isNumberChar c \<longleftrightarrow> isDigit c \<or> c = 0x2D \<or> c = 0x2B \<or> c = 0x2E \<or> c = 0x65 \<or> c = 0x45"

definition isLower :: "jschar \<Rightarrow> bool" where
  "isLower c \<longleftrightarrow> 0x61 \<le> c \<and> c \<le> 0x7A"

definition hexVal :: "jschar \<Rightarrow> nat option" where
  "hexVal c =
     (if 0x30 \<le> c \<and> c \<le> 0x39 then Some (unat c - 48)
      else if 0x61 \<le> c \<and> c \<le> 0x66 then Some (unat c - 87)
      else if 0x41 \<le> c \<and> c \<le> 0x46 then Some (unat c - 55)
      else None)"

definition unescape :: "jschar \<Rightarrow> jschar option" where
  "unescape c =
     (if c = 0x22 then Some 0x22 else if c = 0x5C then Some 0x5C else if c = 0x2F then Some 0x2F
      else if c = 0x62 then Some 0x8 else if c = 0x66 then Some 0xC
      else if c = 0x6E then Some 0xA else if c = 0x72 then Some 0xD
      else if c = 0x74 then Some 0x9 else None)"

definition closeNum :: "jsstring \<Rightarrow> token option" where
  "closeNum span =
     (if isJsonNumber (rev span) then Some (TNumber (StringToNumber (rev span))) else None)"

definition closeWord :: "jsstring \<Rightarrow> token option" where
  "closeWord span =
     (if rev span = js ''true'' then Some TTrue
      else if rev span = js ''false'' then Some TFalse
      else if rev span = js ''null'' then Some TNull
      else None)"

text \<open>A code unit met between tokens; the tokens read so far are kept in reverse.\<close>

definition topChar :: "token list \<Rightarrow> jschar \<Rightarrow> (lexmode \<times> token list) option" where
  "topChar acc c =
     (if isJsonSpace c then Some (MTop, acc)
      else if c = 0x7B then Some (MTop, TLBrace # acc)
      else if c = 0x7D then Some (MTop, TRBrace # acc)
      else if c = 0x5B then Some (MTop, TLBrack # acc)
      else if c = 0x5D then Some (MTop, TRBrack # acc)
      else if c = 0x3A then Some (MTop, TColon # acc)
      else if c = 0x2C then Some (MTop, TComma # acc)
      else if c = 0x22 then Some (MStr [], acc)
      else if c = 0x2D \<or> isDigit c then Some (MNum [c], acc)
      else if isLower c then Some (MWord [c], acc)
      else None)"

fun lexStep :: "lexmode \<Rightarrow> token list \<Rightarrow> jschar \<Rightarrow> (lexmode \<times> token list) option" where
  "lexStep MTop acc c = topChar acc c"
| "lexStep (MStr a) acc c =
     (if c = 0x22 then Some (MTop, TString (rev a) # acc)
      else if c = 0x5C then Some (MEsc a, acc)
      else if c < 0x20 then None
      else Some (MStr (c # a), acc))"
| "lexStep (MEsc a) acc c =
     (if c = 0x75 then Some (MHex a [], acc)
      else case unescape c of None \<Rightarrow> None | Some x \<Rightarrow> Some (MStr (x # a), acc))"
| "lexStep (MHex a hs) acc c =
     (case hexVal c of
        None \<Rightarrow> None
      | Some h \<Rightarrow>
          (case hs of
             [h3, h2, h1] \<Rightarrow> Some (MStr (of_nat (4096 * h1 + 256 * h2 + 16 * h3 + h) # a), acc)
           | _ \<Rightarrow> Some (MHex a (h # hs), acc)))"
| "lexStep (MNum span) acc c =
     (if isNumberChar c then Some (MNum (c # span), acc)
      else case closeNum span of None \<Rightarrow> None | Some t \<Rightarrow> topChar (t # acc) c)"
| "lexStep (MWord span) acc c =
     (if isLower c then Some (MWord (c # span), acc)
      else case closeWord span of None \<Rightarrow> None | Some t \<Rightarrow> topChar (t # acc) c)"

fun lexEnd :: "lexmode \<Rightarrow> token list \<Rightarrow> token list option" where
  "lexEnd MTop acc = Some (rev acc)"
| "lexEnd (MNum span) acc = (case closeNum span of None \<Rightarrow> None | Some t \<Rightarrow> Some (rev (t # acc)))"
| "lexEnd (MWord span) acc = (case closeWord span of None \<Rightarrow> None | Some t \<Rightarrow> Some (rev (t # acc)))"
| "lexEnd _ acc = None"

fun lexRun :: "lexmode \<Rightarrow> token list \<Rightarrow> jsstring \<Rightarrow> token list option" where
  "lexRun m acc [] = lexEnd m acc"
| "lexRun m acc (c # cs) =
     (case lexStep m acc c of None \<Rightarrow> None | Some (m', acc') \<Rightarrow> lexRun m' acc' cs)"

text \<open>
  The parser runs over the tokens with a stack of the arrays and objects that are open:
  an array with its elements so far (in reverse), an object with its properties so far
  and the key that awaits its value.
\<close>

datatype frame = FArr "json list" | FObj "(jsstring \<times> json) list" "jsstring option"

datatype expect = EValue | EArrStart | EObjStart | EKey | EColon | EAfter

datatype pstate = Run expect "frame list" | Done json

fun deliver :: "frame list \<Rightarrow> json \<Rightarrow> pstate option" where
  "deliver [] v = Some (Done v)"
| "deliver (FArr xs # fs) v = Some (Run EAfter (FArr (v # xs) # fs))"
| "deliver (FObj kvs (Some k) # fs) v = Some (Run EAfter (FObj (putProp k v kvs) None # fs))"
| "deliver (FObj kvs None # fs) v = None"

fun startValue :: "frame list \<Rightarrow> token \<Rightarrow> pstate option" where
  "startValue fs (TString s) = deliver fs (JStr s)"
| "startValue fs (TNumber n) = deliver fs (JNum n)"
| "startValue fs TTrue = deliver fs (JBool True)"
| "startValue fs TFalse = deliver fs (JBool False)"
| "startValue fs TNull = deliver fs JNull"
| "startValue fs TLBrack = Some (Run EArrStart (FArr [] # fs))"
| "startValue fs TLBrace = Some (Run EObjStart (FObj [] None # fs))"
| "startValue fs _ = None"

fun pstep :: "pstate \<Rightarrow> token \<Rightarrow> pstate option" where
  "pstep (Done v) t = None"
| "pstep (Run EValue fs) t = startValue fs t"
| "pstep (Run EArrStart (FArr xs # fs)) t =
     (if t = TRBrack then deliver fs (JArr (rev xs)) else startValue (FArr xs # fs) t)"
| "pstep (Run EObjStart (FObj kvs None # fs)) t =
     (case t of
        TRBrace \<Rightarrow> deliver fs (JObj kvs)
      | TString k \<Rightarrow> Some (Run EColon (FObj kvs (Some k) # fs))
      | _ \<Rightarrow> None)"
| "pstep (Run EKey (FObj kvs None # fs)) t =
     (case t of TString k \<Rightarrow> Some (Run EColon (FObj kvs (Some k) # fs)) | _ \<Rightarrow> None)"
| "pstep (Run EColon fs) t = (if t = TColon then Some (Run EValue fs) else None)"
| "pstep (Run EAfter (FArr xs # fs)) t =
     (if t = TComma then Some (Run EValue (FArr xs # fs))
      else if t = TRBrack then deliver fs (JArr (rev xs))
      else None)"
| "pstep (Run EAfter (FObj kvs None # fs)) t =
     (if t = TComma then Some (Run EKey (FObj kvs None # fs))
      else if t = TRBrace then deliver fs (JObj kvs)
      else None)"
| "pstep _ t = None"

fun prun :: "pstate \<Rightarrow> token list \<Rightarrow> json option" where
  "prun (Done v) [] = Some v"
| "prun (Run e fs) [] = None"
| "prun st (t # ts) = (case pstep st t of None \<Rightarrow> None | Some st' \<Rightarrow> prun st' ts)"

text \<open>\<open>JSON.parse\<close>: \<open>None\<close> stands for the \<open>SyntaxError\<close> it throws.\<close>

definition JSON_parse :: "jsstring \<Rightarrow> json option" where
  "JSON_parse text =
     (case lexRun MTop [] text of None \<Rightarrow> None | Some ts \<Rightarrow> prun (Run EValue []) ts)"

section \<open>kvjson.js\<close>

datatype jserror = TypeError

definition parseValue :: "jsstring \<Rightarrow> json" where
  "parseValue text =
     (if text = [] then JStr []
      else case JSON_parse text of Some v \<Rightarrow> v | None \<Rightarrow> JStr text)"

definition toDisplay :: "json \<Rightarrow> jsstring" where
  "toDisplay val = (case val of JStr s \<Rightarrow> s | _ \<Rightarrow> JSON_stringify val)"

text \<open>
  A row of the table is the pair of the values of its key input and of its value input.
  \<open>buildRow\<close> writes both into the \<open>value="..."\<close> attributes of the markup it
  assigns to \<open>innerHTML\<close>, unescaped.  The attribute ends at the first double quote of
  the text; the HTML parser replaces U+0000 by U+FFFD in it, and the value of a text input
  has no line breaks (U+000A and U+000D are stripped).  \<open>attrValue\<close> is the value of the
  input for every text without \<open>&\<close>.  The parser also decodes the character references
  of the text (\<open>&amp;quot;\<close> and the like), and the text after the first double quote is
  markup that can add elements to the row; neither is modelled, and nothing below is
  stated about a row built from a text with \<open>&\<close> or a double quote.
\<close>

type_synonym row = "jsstring \<times> jsstring"

definition attrValue :: "jsstring \<Rightarrow> jsstring" where
  "attrValue s =
     filter (\<lambda>c. c \<noteq> 0x0A \<and> c \<noteq> 0x0D)
       (map (\<lambda>c. if c = 0 then 0xFFFD else c) (takeWhile (\<lambda>c. c \<noteq> 0x22) s))"

definition buildRow :: "jsstring \<Rightarrow> json \<Rightarrow> row" where
  "buildRow key val = (attrValue key, attrValue (toDisplay val))"

subsection \<open>The object \<open>data\<close> of \<open>syncHidden\<close>\<close>

text \<open>
  \<open>data\<close> starts as \<open>{}\<close>, an ordinary object whose prototype is \<open>Object.prototype\<close>.
  An assignment \<open>data["__proto__"] = v\<close> goes to the accessor of \<open>Object.prototype\<close> and
  replaces the prototype by \<open>v\<close> when \<open>v\<close> is an object, an array or \<open>null\<close>, so the
  object is modelled by its own properties and its prototype.
\<close>

datatype proto = ObjectPrototype | NullPrototype | ValuePrototype json

record jsobject =
  props :: "(jsstring \<times> json) list"
  proto :: proto

definition emptyObject :: jsobject where
  "emptyObject = \<lparr>props = [], proto = ObjectPrototype\<rparr>"

definition ownKeys :: "jsobject \<Rightarrow> jsstring list" where
  "ownKeys d = map fst (props d)"

text \<open>
  Whether the property \<open>name\<close> is found on the prototype chain at an object made by
  \<open>JSON.parse\<close>, before \<open>Object.prototype\<close> is reached.
\<close>

definition shadowedInProto :: "proto \<Rightarrow> jsstring \<Rightarrow> bool" where
  "shadowedInProto p name =
     (case p of ValuePrototype (JObj kvs) \<Rightarrow> name \<in> set (map fst kvs) | _ \<Rightarrow> False)"

text \<open>
  \<open>data.hasOwnProperty(key)\<close>: the method is looked up on \<open>data\<close> and its prototype
  chain; what it finds is the function of \<open>Object.prototype\<close>, or a value that is not
  callable, or nothing, and a call of the last two throws a \<open>TypeError\<close>.
\<close>

definition callHasOwnProperty :: "jsobject \<Rightarrow> jsstring \<Rightarrow> jserror + bool" where
  "callHasOwnProperty d key =
     (if js ''hasOwnProperty'' \<in> set (ownKeys d) \<or> proto d = NullPrototype \<or>
         shadowedInProto (proto d) (js ''hasOwnProperty'')
      then Inl TypeError
      else Inr (key \<in> set (ownKeys d)))"

text \<open>\<open>data[key] = v\<close>.\<close>

definition setProperty :: "jsobject \<Rightarrow> jsstring \<Rightarrow> json \<Rightarrow> jsobject" where
  "setProperty d key v =
     (if key = js ''__proto__'' \<and> key \<notin> set (ownKeys d) \<and> proto d \<noteq> NullPrototype \<and>
         \<not> shadowedInProto (proto d) key
      then (case v of
              JObj kvs \<Rightarrow> d\<lparr>proto := ValuePrototype v\<rparr>
            | JArr xs \<Rightarrow> d\<lparr>proto := ValuePrototype v\<rparr>
            | JNull \<Rightarrow> d\<lparr>proto := NullPrototype\<rparr>
            | _ \<Rightarrow> d)
      else d\<lparr>props := putProp key v (props d)\<rparr>)"

subsection \<open>The widget\<close>

text \<open>
  The state of one widget: the rows of its table, the value of its hidden input, whether
  the \<open>input\<close> and \<open>click\<close> listeners of \<open>init\<close> are attached (\<open>bound\<close>), whether the
  widget lies in a form (\<open>inForm\<close>) and whether that form has the \<open>submit\<close> listener
  (\<open>formBound\<close>).  Every operation returns the error it throws, if any, with the state it
  leaves.
\<close>

record kv_widget =
  rows :: "row list"
  hidden :: jsstring
  bound :: bool
  inForm :: bool
  formBound :: bool

definition syncRow :: "jsobject \<Rightarrow> row \<Rightarrow> jserror + jsobject" where
  "syncRow d r =
     (let key = trim (fst r); valRaw = snd r
      in if key = [] then Inr d
         else case callHasOwnProperty d key of
                Inl e \<Rightarrow> Inl e
              | Inr True \<Rightarrow> Inr d
              | Inr False \<Rightarrow> Inr (setProperty d key (parseValue valRaw)))"

fun syncRows :: "jsobject \<Rightarrow> row list \<Rightarrow> jserror + jsobject" where
  "syncRows d [] = Inr d"
| "syncRows d (r # rs) = (case syncRow d r of Inl e \<Rightarrow> Inl e | Inr d' \<Rightarrow> syncRows d' rs)"

definition syncHidden :: "kv_widget \<Rightarrow> jserror option \<times> kv_widget" where
  "syncHidden w =
     (case syncRows emptyObject (rows w) of
        Inl e \<Rightarrow> (Some e, w)
      | Inr data \<Rightarrow> (None, w\<lparr>hidden := JSON_stringify (JObj (props data))\<rparr>))"

text \<open>
  \<open>Object.keys(data)\<close> with \<open>data[k]\<close> for each key: the properties of an object, the
  elements of an array and the code units of a string under their indices, nothing for
  a number or a boolean, and a \<open>TypeError\<close> for \<open>null\<close>.
\<close>

definition entries :: "json \<Rightarrow> jserror + (jsstring \<times> json) list" where
  "entries data =
     (case data of
        JNull \<Rightarrow> Inl TypeError
      | JObj kvs \<Rightarrow> Inr kvs
      | JArr xs \<Rightarrow> Inr (zip (map digits [0..<length xs]) xs)
      | JStr s \<Rightarrow> Inr (zip (map digits [0..<length s]) (map (\<lambda>c. JStr [c]) s))
      | _ \<Rightarrow> Inr [])"

definition loadInitial :: "kv_widget \<Rightarrow> jserror option \<times> kv_widget" where
  "loadInitial w =
     (let data = (case JSON_parse (if hidden w = [] then js ''{}'' else hidden w) of
                    Some v \<Rightarrow> v
                  | None \<Rightarrow> JObj []);
          w1 = w\<lparr>rows := []\<rparr>
      in case entries data of
           Inl e \<Rightarrow> (Some e, w1)
         | Inr kvs \<Rightarrow> (None, w1\<lparr>rows := map (\<lambda>kv. buildRow (fst kv) (snd kv)) kvs\<rparr>))"

definition addRow :: "kv_widget \<Rightarrow> jsstring \<Rightarrow> json \<Rightarrow> jserror option \<times> kv_widget" where
  "addRow w key val = syncHidden (w\<lparr>rows := rows w @ [buildRow key val]\<rparr>)"

definition init :: "kv_widget \<Rightarrow> jserror option \<times> kv_widget" where
  "init w =
     (case loadInitial w of
        (Some e, w1) \<Rightarrow> (Some e, w1)
      | (None, w1) \<Rightarrow>
          (let w2 = w1\<lparr>bound := True\<rparr>;
               w3 = (if inForm w2 \<and> \<not> formBound w2 then w2\<lparr>formBound := True\<rparr> else w2)
           in if rows w3 = [] then addRow w3 [] (JStr []) else (None, w3)))"

text \<open>
  What happens to a widget after \<open>init\<close>: a click on the add button, a click on the
  remove button of row \<open>i\<close>, an edit of the key or of the value input of row \<open>i\<close>
  (the \<open>input\<close> event that follows it reaches \<open>onChange\<close>), and the submission of the
  form.  An error thrown by a listener is reported by the host and the page goes on.
\<close>

datatype event =
    ClickAdd
  | ClickRemove nat
  | InputKey nat jsstring
  | InputVal nat jsstring
  | FormSubmit

definition removeAt :: "nat \<Rightarrow> 'a list \<Rightarrow> 'a list" where
  "removeAt i xs = take i xs @ drop (Suc i) xs"

fun fire :: "event \<Rightarrow> kv_widget \<Rightarrow> jserror option \<times> kv_widget" where
  "fire ClickAdd w = (if bound w then addRow w [] (JStr []) else (None, w))"
| "fire (ClickRemove i) w =
     (if i < length (rows w)
      then (let w1 = w\<lparr>rows := removeAt i (rows w)\<rparr>
            in if bound w then syncHidden w1 else (None, w))
      else (None, w))"
| "fire (InputKey i s) w =
     (if i < length (rows w)
      then (let w1 = w\<lparr>rows := (rows w)[i := (s, snd (rows w ! i))]\<rparr>
            in if bound w then syncHidden w1 else (None, w1))
      else (None, w))"
| "fire (InputVal i s) w =
     (if i < length (rows w)
      then (let w1 = w\<lparr>rows := (rows w)[i := (fst (rows w ! i), s)]\<rparr>
            in if bound w then syncHidden w1 else (None, w1))
      else (None, w))"
| "fire FormSubmit w = (if formBound w then syncHidden w else (None, w))"

fun run :: "event list \<Rightarrow> kv_widget \<Rightarrow> kv_widget" where
  "run [] w = w"
| "run (e # es) w = run es (snd (fire e w))"

definition freshWidget :: "jsstring \<Rightarrow> bool \<Rightarrow> kv_widget" where
  "freshWidget h f = \<lparr>rows = [], hidden = h, bound = False, inForm = f, formBound = False\<rparr>"

section \<open>Notions of the specification\<close>

subsection \<open>Days and quick-range keys\<close>

text \<open>
  Start-of-day and end-of-day of the specification's glossary: 00:00:00.000 and
  23:59:59.999 of the date of an instant.  The recognized quick-range keys are those of
  the specification's data model.
\<close>

definition startOfDay :: "int \<Rightarrow> int" where
  "startOfDay t = Day t * msPerDay"

definition endOfDay :: "int \<Rightarrow> int" where
  "endOfDay t = Day t * msPerDay + (msPerDay - 1)"

definition QuickRangeKeys :: "jsstring list" where
  "QuickRangeKeys =
     [js ''today'', js ''yesterday'', js ''this_week'', js ''this_month'', js ''last_12_hours'',
      js ''last_24_hours'', js ''last_2_days'', js ''last_7_days'']"

text \<open>The number of days of month \<open>m\<close> (0 to 11) in a year with leap flag \<open>l\<close> (0 or 1).\<close>

definition DaysInMonth :: "int \<Rightarrow> int \<Rightarrow> int" where
  "DaysInMonth m l =
     (if m = 1 then 28 + l
      else if m = 3 \<or> m = 5 \<or> m = 8 \<or> m = 10 then 30
      else 31)"

subsection \<open>The resync of the specification\<close>

text \<open>
  The document of the specification's \<open>resync\<close>, in its words: a fold over the rows in
  order that trims each key, skips a row with an empty key, skips a row whose key was
  accepted before, and decodes the value of an accepted row as JSON, with the raw string
  when decoding fails and the empty string for an empty value.
\<close>

definition specDecode :: "jsstring \<Rightarrow> json" where
  "specDecode raw =
     (if raw = [] then JStr []
      else case JSON_parse raw of Some v \<Rightarrow> v | None \<Rightarrow> JStr raw)"

definition specStep :: "(jsstring \<times> json) list \<Rightarrow> row \<Rightarrow> (jsstring \<times> json) list" where
  "specStep doc r =
     (let k = trim (fst r)
      in if k = [] then doc
         else if k \<in> set (map fst doc) then doc
         else doc @ [(k, specDecode (snd r))])"

definition specResync :: "row list \<Rightarrow> (jsstring \<times> json) list" where
  "specResync rs = foldl specStep [] rs"

text \<open>A string parses as a JSON object.\<close>

definition parsesAsObject :: "jsstring \<Rightarrow> bool" where
  "parsesAsObject s = (case JSON_parse s of Some (JObj kvs) \<Rightarrow> True | _ \<Rightarrow> False)"

section \<open>Notions of the proofs\<close>

text \<open>
  The tokens of the text \<open>JSON.stringify\<close> writes for a value, and the value
  \<open>JSON.parse\<close> reads back from them: numbers go through their decimal form and the
  properties of an object are created one by one.
\<close>

fun joinTokens :: "token list list \<Rightarrow> token list" where
  "joinTokens [] = []"
| "joinTokens [x] = x"
| "joinTokens (x # y # ys) = x @ TComma # joinTokens (y # ys)"

fun tokensOf :: "json \<Rightarrow> token list" where
  "tokensOf JNull = [TNull]"
| "tokensOf (JBool b) = [if b then TTrue else TFalse]"
| "tokensOf (JNum x) = [TNumber (StringToNumber (NumberToString x))]"
| "tokensOf (JStr s) = [TString s]"
| "tokensOf (JArr xs) = TLBrack # joinTokens (map tokensOf xs) @ [TRBrack]"
| "tokensOf (JObj kvs) =
     TLBrace # joinTokens (map (\<lambda>kv. TString (fst kv) # TColon # tokensOf (snd kv)) kvs) @
     [TRBrace]"

fun reread :: "json \<Rightarrow> json" where
  "reread JNull = JNull"
| "reread (JBool b) = JBool b"
| "reread (JNum x) = JNum (StringToNumber (NumberToString x))"
| "reread (JStr s) = JStr s"
| "reread (JArr xs) = JArr (map reread xs)"
| "reread (JObj kvs) =
     JObj (foldl (\<lambda>acc kv. putProp (fst kv) (snd kv) acc) []
             (map (\<lambda>kv. (fst kv, reread (snd kv))) kvs))"

text \<open>What may follow a number or a literal name in a text: nothing, or a code unit that
  continues neither.\<close>

definition delimited :: "jsstring \<Rightarrow> bool" where
  "delimited rest \<longleftrightarrow> (case rest of [] \<Rightarrow> True | c # cs \<Rightarrow> \<not> isNumberChar c \<and> \<not> isLower c)"

text \<open>
  The initial values of the hidden input from which \<open>init\<close> makes rows without a resync
  or fails: those that parse to \<open>null\<close>, to a non-empty array or to a non-empty string.
  \<open>initialOk\<close> holds of every other value.
\<close>

definition initialOk :: "jsstring \<Rightarrow> bool" where
  "initialOk h =
     (case JSON_parse h of
        Some JNull \<Rightarrow> False
      | Some (JArr (x # xs)) \<Rightarrow> False
      | Some (JStr (c # cs)) \<Rightarrow> False
      | _ \<Rightarrow> True)"

section \<open>Properties of the calendar functions\<close>

lemma div_step:
  fixes a n :: int
  assumes "0 < n"
  shows "(a + 1) div n = a div n + (if (a + 1) mod n = 0 then 1 else 0)"
proof (cases "(a + 1) mod n = 0")
  case True
  then obtain k where k: "a + 1 = n * k" by (auto simp: mod_eq_0_iff_dvd)
  then have a: "a = n * (k - 1) + (n - 1)" by (simp add: algebra_simps)
  have "a div n = k - 1"
    using assms by (subst a) (simp add: div_pos_pos_trivial)
  moreover have "(a + 1) div n = k" using assms k by simp
  ultimately show ?thesis using True by simp
next
  case False
  have m: "0 \<le> a mod n" "a mod n < n" using assms by simp_all
  have "a mod n \<noteq> n - 1"
  proof
    assume "a mod n = n - 1"
    then have "(a + 1) mod n = 0"
      by (metis add.commute diff_add_cancel mod_add_right_eq mod_self)
    with False show False by simp
  qed
  with m have lt: "a mod n + 1 < n" by simp
  have "(a + 1) div n = (n * (a div n) + (a mod n + 1)) div n" by simp
  also have "\<dots> = a div n + (a mod n + 1) div n" 
    using assms  by (simp only: div_mult_self2 [of n] add.commute)
  also have "(a mod n + 1) div n = 0" using m lt by (intro div_pos_pos_trivial) simp_all
  finally show ?thesis using False by simp
qed

lemma mod_shift: fixes y :: int shows "(y - n * k) mod n = y mod n"
  using mod_mult_self2 [of y n "- k"] by simp

lemma DayFromYear_Suc: "DayFromYear (y + 1) = DayFromYear y + (if InLeapYearOf y then 366 else 365)"
proof -
  have a: "(y + 1 - 1969) div 4 = (y - 1969) div 4 + (if y mod 4 = 0 then 1 else 0)"
  proof -
    have "(y - 1969 + 1) mod 4 = y mod 4" using mod_shift [of y 4 492] by simp
    moreover have "y + 1 - 1969 = y - 1969 + 1" by simp
    ultimately show ?thesis using div_step [of 4 "y - 1969"] by simp
  qed
  have b: "(y + 1 - 1901) div 100 = (y - 1901) div 100 + (if y mod 100 = 0 then 1 else 0)"
  proof -
    have "(y - 1901 + 1) mod 100 = y mod 100" using mod_shift [of y 100 19] by simp
    moreover have "y + 1 - 1901 = y - 1901 + 1" by simp
    ultimately show ?thesis using div_step [of 100 "y - 1901"] by simp
  qed
  have c: "(y + 1 - 1601) div 400 = (y - 1601) div 400 + (if y mod 400 = 0 then 1 else 0)"
  proof -
    have "(y - 1601 + 1) mod 400 = y mod 400" using mod_shift [of y 400 4] by simp
    moreover have "y + 1 - 1601 = y - 1601 + 1" by simp
    ultimately show ?thesis using div_step [of 400 "y - 1601"] by simp
  qed
  have d1: "y mod 400 = 0 \<Longrightarrow> y mod 100 = 0"
    using mod_mod_cancel [of 100 400 y] by simp
  have d2: "y mod 100 = 0 \<Longrightarrow> y mod 4 = 0"
    using mod_mod_cancel [of 4 100 y] by simp
  define q1 where "q1 = (y - 1969) div 4"
  define q2 where "q2 = (y - 1901) div 100"
  define q3 where "q3 = (y - 1601) div 400"
  have e: "DayFromYear (y + 1) = 365 * (y - 1970) + 365 + (y + 1 - 1969) div 4
     - (y + 1 - 1901) div 100 + (y + 1 - 1601) div 400"
    by (simp add: DayFromYear_def)
  have f: "DayFromYear y = 365 * (y - 1970) + q1 - q2 + q3"
    by (simp add: DayFromYear_def q1_def q2_def q3_def)
  show ?thesis
  proof (cases "y mod 4 = 0")
    case False
    then have "y mod 100 \<noteq> 0" "y mod 400 \<noteq> 0" using d1 d2 by auto
    with False show ?thesis
      unfolding e a b c f InLeapYearOf_def q1_def [symmetric] q2_def [symmetric] q3_def [symmetric]
      by simp
  next
    case 4: True
    show ?thesis
    proof (cases "y mod 100 = 0")
      case False
      then have "y mod 400 \<noteq> 0" using d1 by auto
      with 4 False show ?thesis
        unfolding e a b c f InLeapYearOf_def q1_def [symmetric] q2_def [symmetric] q3_def [symmetric]
        by simp
    next
      case True
      with 4 show ?thesis
        unfolding e a b c f InLeapYearOf_def q1_def [symmetric] q2_def [symmetric] q3_def [symmetric]
        by (cases "y mod 400 = 0") simp_all
    qed
  qed
qed

lemma div_lower: fixes a n :: int shows "0 < n \<Longrightarrow> n * (a div n) \<le> a"
  using mult_div_mod_eq [of n a] pos_mod_sign [of n a] by linarith

lemma div_upper: fixes a n :: int shows "0 < n \<Longrightarrow> a < n * (a div n) + n"
  using mult_div_mod_eq [of n a] pos_mod_bound [of n a] by linarith

lemma DayFromYear_bounds:
  "146097 * y - 287811596 \<le> 400 * DayFromYear y"
  "400 * DayFromYear y \<le> 146097 * y - 287810501"
proof -
  define q1 where "q1 = (y - 1969) div 4"
  define q2 where "q2 = (y - 1901) div 100"
  define q3 where "q3 = (y - 1601) div 400"
  have a: "4 * q1 \<le> y - 1969" "y - 1969 < 4 * q1 + 4"
    unfolding q1_def using div_lower [of 4 "y - 1969"] div_upper [of 4 "y - 1969"] by simp_all
  have b: "100 * q2 \<le> y - 1901" "y - 1901 < 100 * q2 + 100"
    unfolding q2_def using div_lower [of 100 "y - 1901"] div_upper [of 100 "y - 1901"] by simp_all
  have c: "400 * q3 \<le> y - 1601" "y - 1601 < 400 * q3 + 400"
    unfolding q3_def using div_lower [of 400 "y - 1601"] div_upper [of 400 "y - 1601"] by simp_all
  have d: "400 * DayFromYear y = 146000 * y - 287620000 + 400 * q1 - 400 * q2 + 400 * q3"
    by (simp add: DayFromYear_def q1_def q2_def q3_def algebra_simps)
  show "146097 * y - 287811596 \<le> 400 * DayFromYear y"
    unfolding d using a b c by linarith
  show "400 * DayFromYear y \<le> 146097 * y - 287810501"
    unfolding d using a b c by linarith
qed

lemma YearFromDay_bounds:
  "DayFromYear (YearFromDay d) \<le> d \<and> d < DayFromYear (YearFromDay d + 1)"
proof -
  define q where "q = (400 * d) div 146097"
  define e where "e = 1970 + q"
  define y2 where "y2 = e + 2"
  define y0 where "y0 = e - 1"
  have y: "y2 = q + 1972" "y0 = q + 1969" by (simp_all add: y2_def y0_def e_def)
  have q: "146097 * q \<le> 400 * d" "400 * d < 146097 * q + 146097"
    unfolding q_def using div_lower [of 146097 "400 * d"] div_upper [of 146097 "400 * d"]
    by simp_all
  have hi: "d < DayFromYear y2"
    using DayFromYear_bounds(1) [of y2] q y(1) by linarith
  have lo: "DayFromYear y0 \<le> d"
    using DayFromYear_bounds(2) [of y0] q y(2) by linarith
  have "YearFromDay d = (if DayFromYear (e + 1) \<le> d then e + 1
         else if DayFromYear e \<le> d then e else e - 1)"
    by (simp add: YearFromDay_def e_def q_def Let_def)
  moreover have "e + 1 + 1 = y2" by (simp add: y2_def)
  ultimately show ?thesis using hi lo unfolding y0_def by (simp split: if_splits)
qed

lemma DayFromYear_less_Suc: "DayFromYear y < DayFromYear (y + 1)"
  by (simp add: DayFromYear_Suc)

lemma DayFromYear_mono: "y \<le> y' \<Longrightarrow> DayFromYear y \<le> DayFromYear y'"
proof (induction y' rule: int_ge_induct)
  case base
  show ?case by simp
next
  case (step i)
  then show ?case using DayFromYear_less_Suc [of i] by simp
qed

lemma YearFromDay_unique:
  assumes "DayFromYear y \<le> d" "d < DayFromYear (y + 1)"
  shows "YearFromDay d = y"
proof -
  let ?Y = "YearFromDay d"
  have b: "DayFromYear ?Y \<le> d" "d < DayFromYear (?Y + 1)"
    using YearFromDay_bounds [of d] by simp_all
  have "\<not> ?Y < y"
  proof
    assume "?Y < y"
    then have "DayFromYear (?Y + 1) \<le> DayFromYear y" by (intro DayFromYear_mono) simp
    with b assms show False by simp
  qed
  moreover have "\<not> y < ?Y"
  proof
    assume "y < ?Y"
    then have "DayFromYear (y + 1) \<le> DayFromYear ?Y" by (intro DayFromYear_mono) simp
    with b assms show False by simp
  qed
  ultimately show ?thesis by simp
qed

lemma MonthStart_DaysInMonth:
  "0 \<le> m \<Longrightarrow> m \<le> 10 \<Longrightarrow> MonthStart (m + 1) l = MonthStart m l + DaysInMonth m l"
proof -
  assume "0 \<le> m" "m \<le> 10"
  then have "m = 0 \<or> m = 1 \<or> m = 2 \<or> m = 3 \<or> m = 4 \<or> m = 5 \<or> m = 6 \<or> m = 7 \<or> m = 8
    \<or> m = 9 \<or> m = 10" by arith
  then show ?thesis by (elim disjE) (simp_all add: MonthStart_def DaysInMonth_def)
qed

lemma MakeDay_inverse:
  assumes m: "0 \<le> m" "m \<le> 11"
    and d: "1 \<le> d" "d \<le> DaysInMonth m (if InLeapYearOf y then 1 else 0)"
    and t: "Day t = MakeDay y m d"
  shows "YearFromTime t = y" "MonthFromTime t = m" "DateFromTime t = d"
proof -
  define l :: int where "l = (if InLeapYearOf y then 1 else 0)"
  have l: "l = 0 \<or> l = 1" by (simp add: l_def)
  have mm: "m div 12 = 0" "m mod 12 = m" using m by simp_all
  have D: "Day t = DayFromYear y + MonthStart m l + d - 1"
    using t mm by (simp add: MakeDay_def l_def Let_def)
  have cases: "m = 0 \<or> m = 1 \<or> m = 2 \<or> m = 3 \<or> m = 4 \<or> m = 5 \<or> m = 6 \<or> m = 7 \<or> m = 8
    \<or> m = 9 \<or> m = 10 \<or> m = 11" using m by arith
  have dl: "d \<le> DaysInMonth m l" using d by (simp add: l_def)
  have w: "0 \<le> MonthStart m l + d - 1" "MonthStart m l + d - 1 < 365 + l"
    using cases l d(1) dl by (elim disjE; simp add: MonthStart_def DaysInMonth_def)+
  have "DayFromYear (y + 1) = DayFromYear y + 365 + l"
    by (simp add: DayFromYear_Suc l_def)
  with D w have "DayFromYear y \<le> Day t" "Day t < DayFromYear (y + 1)" by simp_all
  then show Y: "YearFromTime t = y"
    unfolding YearFromTime_def by (rule YearFromDay_unique)
  have W: "DayWithinYear t = MonthStart m l + d - 1"
    by (simp add: DayWithinYear_def Y D)
  have L: "InLeapYear t = l" by (simp add: InLeapYear_def Y l_def)
  show M: "MonthFromTime t = m"
    unfolding MonthFromTime_def W L Let_def
    using cases l d(1) dl by (elim disjE; simp add: MonthStart_def DaysInMonth_def)
  show "DateFromTime t = d"
    by (simp add: DateFromTime_def W L M)
qed

lemma MakeDay_day0:
  assumes m: "0 \<le> m" "m \<le> 11"
  shows "MakeDay y (m + 1) 0 = MakeDay y m (DaysInMonth m (if InLeapYearOf y then 1 else 0))"
proof (cases "m = 11")
  case True
  then show ?thesis
    by (simp add: MakeDay_def DayFromYear_Suc MonthStart_def DaysInMonth_def Let_def)
next
  case False
  with m have r: "m \<le> 10" by simp
  then have "(m + 1) div 12 = 0" "(m + 1) mod 12 = m + 1" "m div 12 = 0" "m mod 12 = m"
    using m by simp_all
  then show ?thesis
    using MonthStart_DaysInMonth [OF m(1) r] by (simp add: MakeDay_def Let_def)
qed

lemma Day_MakeDate: "0 \<le> tm \<Longrightarrow> tm < msPerDay \<Longrightarrow> Day (MakeDate d tm) = d"
  by (simp add: Day_def MakeDate_def msPerDay_def div_pos_pos_trivial)

lemma TimeWithinDay_MakeDate:
  "0 \<le> tm \<Longrightarrow> tm < msPerDay \<Longrightarrow> TimeWithinDay (MakeDate d tm) = tm"
  by (simp add: TimeWithinDay_def MakeDate_def msPerDay_def)

lemma TimeWithinDay_range: "0 \<le> TimeWithinDay t" "TimeWithinDay t < msPerDay"
  by (simp_all add: TimeWithinDay_def msPerDay_def)

lemma Day_TimeWithinDay: "t = MakeDate (Day t) (TimeWithinDay t)"
  by (simp add: MakeDate_def Day_def TimeWithinDay_def)

lemma MonthFromTime_range: "0 \<le> MonthFromTime t" "MonthFromTime t \<le> 11"
  by (simp_all add: MonthFromTime_def Let_def)

lemma MakeDay_current:
  "MakeDay (YearFromTime t) (MonthFromTime t) (DateFromTime t + k) = Day t + k"
proof -
  have r: "0 \<le> MonthFromTime t" "MonthFromTime t < 12"
    using MonthFromTime_range [of t] by auto
  then have "MonthFromTime t div 12 = 0" "MonthFromTime t mod 12 = MonthFromTime t"
    by simp_all
  then show ?thesis
    by (simp add: MakeDay_def DateFromTime_def DayWithinYear_def InLeapYear_def Let_def)
qed

lemma Day_setDate: "Day (setDate t (getDate t - k)) = Day t - k"
  using MakeDay_current [of t "- k"] TimeWithinDay_range [of t]
  by (simp add: setDate_def getDate_def Day_MakeDate)

lemma setHours_start: "setHours t 0 0 0 0 = startOfDay t"
  by (simp add: setHours_def startOfDay_def MakeDate_def MakeTime_def)

lemma setHours_end: "setHours t 23 59 59 999 = endOfDay t"
  by (simp add: setHours_def endOfDay_def MakeDate_def MakeTime_def msPerDay_def msPerHour_def
      msPerMinute_def msPerSecond_def)

lemma Day_startOfDay: "Day (startOfDay t) = Day t"
  using Day_MakeDate [of 0 "Day t"] by (simp add: startOfDay_def MakeDate_def msPerDay_def)

lemma Day_endOfDay: "Day (endOfDay t) = Day t"
  using Day_MakeDate [of "msPerDay - 1" "Day t"] by (simp add: endOfDay_def MakeDate_def msPerDay_def)

lemma start_le_end: "Day s \<le> Day t \<Longrightarrow> startOfDay s \<le> endOfDay t"
  by (simp add: startOfDay_def endOfDay_def msPerDay_def)

lemma keys_normal:
  "toLowerCase lo (trim (js ''today'')) = js ''today''"
  "toLowerCase lo (trim (js ''yesterday'')) = js ''yesterday''"
  "toLowerCase lo (trim (js ''this_week'')) = js ''this_week''"
  "toLowerCase lo (trim (js ''this_month'')) = js ''this_month''"
  "toLowerCase lo (trim (js ''last_12_hours'')) = js ''last_12_hours''"
  "toLowerCase lo (trim (js ''last_24_hours'')) = js ''last_24_hours''"
  "toLowerCase lo (trim (js ''last_2_days'')) = js ''last_2_days''"
  "toLowerCase lo (trim (js ''last_7_days'')) = js ''last_7_days''"
  by (simp_all add: js_def trim_def toLowerCase_def isAscii_def asciiLower_def isWhiteSpace_def)

lemma cqr_today:
  "toLowerCase lo (trim k) = js ''today'' \<Longrightarrow>
   computeQuickRange lo k now = (startOfDay now, endOfDay now)"
  by (simp add: computeQuickRange_def Let_def setHours_start setHours_end)

lemma cqr_yesterday:
  "toLowerCase lo (trim k) = js ''yesterday'' \<Longrightarrow>
   computeQuickRange lo k now =
     (startOfDay (setDate now (getDate now - 1)),
      endOfDay (startOfDay (setDate now (getDate now - 1))))"
  by (simp add: computeQuickRange_def Let_def setHours_start setHours_end js_def)

lemma cqr_this_week:
  "toLowerCase lo (trim k) = js ''this_week'' \<Longrightarrow>
   computeQuickRange lo k now =
     (startOfDay (setDate now (getDate now - ((if getDay now = 0 then 7 else getDay now) - 1))),
      endOfDay now)"
  by (simp add: computeQuickRange_def Let_def setHours_start setHours_end js_def)

lemma cqr_this_month:
  "toLowerCase lo (trim k) = js ''this_month'' \<Longrightarrow>
   computeQuickRange lo k now =
     (startOfDay (newDate3 (getFullYear now) (getMonth now) 1),
      endOfDay (newDate3 (getFullYear now) (getMonth now + 1) 0))"
  by (simp add: computeQuickRange_def Let_def setHours_start setHours_end js_def)

lemma cqr_last_12_hours:
  "toLowerCase lo (trim k) = js ''last_12_hours'' \<Longrightarrow>
   computeQuickRange lo k now = (now - 43200000, now)"
  by (simp add: computeQuickRange_def Let_def js_def)

lemma cqr_last_24_hours:
  "toLowerCase lo (trim k) = js ''last_24_hours'' \<Longrightarrow>
   computeQuickRange lo k now = (now - 86400000, now)"
  by (simp add: computeQuickRange_def Let_def js_def)

lemma cqr_last_2_days:
  "toLowerCase lo (trim k) = js ''last_2_days'' \<Longrightarrow>
   computeQuickRange lo k now = (startOfDay (setDate now (getDate now - 1)), endOfDay now)"
  by (simp add: computeQuickRange_def Let_def setHours_start setHours_end js_def)

lemma cqr_last_7_days:
  "toLowerCase lo (trim k) = js ''last_7_days'' \<Longrightarrow>
   computeQuickRange lo k now = (startOfDay (setDate now (getDate now - 6)), endOfDay now)"
  by (simp add: computeQuickRange_def Let_def setHours_start setHours_end js_def)

lemma Day_newDate3:
  "Day (newDate3 y m d) = MakeDay (if 0 \<le> y \<and> y \<le> 99 then 1900 + y else y) m d"
  using Day_MakeDate [of 0] by (simp add: newDate3_def MakeTime_def Let_def msPerDay_def)

lemma MakeDay_shift: "MakeDay y m d = MakeDay y m 1 + d - 1"
  by (simp add: MakeDay_def Let_def)

lemma DaysInMonth_pos: "1 \<le> DaysInMonth m (if b then 1 else 0)"
  by (simp add: DaysInMonth_def)

lemma this_month_days:
  "Day (newDate3 (getFullYear now) (getMonth now) 1)
     \<le> Day (newDate3 (getFullYear now) (getMonth now + 1) 0)"
proof -
  define yr where "yr = (if 0 \<le> getFullYear now \<and> getFullYear now \<le> 99
     then 1900 + getFullYear now else getFullYear now)"
  have m: "0 \<le> getMonth now" "getMonth now \<le> 11"
    using MonthFromTime_range [of now] by (simp_all add: getMonth_def)
  have "MakeDay yr (getMonth now) 1 \<le> MakeDay yr (getMonth now + 1) 0"
    unfolding MakeDay_day0 [OF m]
    using MakeDay_shift [of yr "getMonth now" "DaysInMonth (getMonth now) (if InLeapYearOf yr then 1 else 0)"]
      DaysInMonth_pos [of "getMonth now" "InLeapYearOf yr"]
    by linarith
  then show ?thesis by (simp add: Day_newDate3 yr_def)
qed

lemma getDay_range: "0 \<le> getDay t" "getDay t \<le> 6"
  by (simp_all add: getDay_def WeekDay_def)

lemmas date_eval =
  getFullYear_def getMonth_def getDate_def getDay_def getHours_def getMinutes_def getSeconds_def
  YearFromTime_def YearFromDay_def Day_def TimeWithinDay_def msPerDay_def msPerHour_def
  msPerMinute_def msPerSecond_def DayFromYear_def InLeapYearOf_def InLeapYear_def
  DayWithinYear_def MonthFromTime_def MonthStart_def DateFromTime_def WeekDay_def
  HourFromTime_def MinFromTime_def SecFromTime_def MakeTime_def MakeDay_def MakeDate_def
  setHours_def setDate_def newDate3_def startOfDay_def endOfDay_def Let_def

section \<open>Quick ranges: the claims\<close>

text \<open>
  Claim C3.  For every recognized quick-range key and every clock reading \<open>now\<close>,
  \<open>computeQuickRange\<close> yields one pair \<open>(from, to)\<close>, a function of the key and of
  \<open>now\<close> alone (the source reads the clock once and derives both ends from that reading),
  and the pair satisfies \<open>from \<le> to\<close>.  This holds under the case mappings of every
  host.
\<close>

theorem resolve_from_le_to:
  "key \<in> set QuickRangeKeys \<Longrightarrow>
     (\<exists>from to. computeQuickRange lo key now = (from, to) \<and> from \<le> to)"
proof -
  assume "key \<in> set QuickRangeKeys"
  then consider "key = js ''today''" | "key = js ''yesterday''" | "key = js ''this_week''"
    | "key = js ''this_month''" | "key = js ''last_12_hours''" | "key = js ''last_24_hours''"
    | "key = js ''last_2_days''" | "key = js ''last_7_days''"
    by (auto simp: QuickRangeKeys_def)
  then show ?thesis
  proof cases
    case 1
    then show ?thesis by (simp add: cqr_today keys_normal start_le_end)
  next
    case 2
    then show ?thesis by (simp add: cqr_yesterday keys_normal start_le_end Day_startOfDay)
  next
    case 3
    have "Day (setDate now (getDate now - ((if getDay now = 0 then 7 else getDay now) - 1)))
        \<le> Day now"
      using getDay_range [of now] by (simp add: Day_setDate)
    with 3 show ?thesis by (simp add: cqr_this_week keys_normal start_le_end)
  next
    case 4
    then show ?thesis by (simp add: cqr_this_month keys_normal start_le_end this_month_days)
  next
    case 5
    then show ?thesis by (simp add: cqr_last_12_hours keys_normal)
  next
    case 6
    then show ?thesis by (simp add: cqr_last_24_hours keys_normal)
  next
    case 7
    then show ?thesis by (simp add: cqr_last_2_days keys_normal start_le_end Day_setDate)
  next
    case 8
    then show ?thesis by (simp add: cqr_last_7_days keys_normal start_le_end Day_setDate)
  qed
qed

theorem resolve_from_le_to_witness:
  "js ''this_month'' \<in> set QuickRangeKeys \<and>
   computeQuickRange sampleLower (js ''this_month'') 1707568496789 = (1706745600000, 1709251199999) \<and>
   (1706745600000 :: int) \<le> 1709251199999"
proof -
  have k: "js ''this_month'' \<in> set QuickRangeKeys" by (simp add: QuickRangeKeys_def)
  have "computeQuickRange sampleLower (js ''this_month'') 1707568496789 = (1706745600000, 1709251199999)"
    by (simp add: cqr_this_month keys_normal date_eval)
  with k resolve_from_le_to [OF k, where now = 1707568496789 and lo = sampleLower] show ?thesis by simp
qed

lemma cqr_default:
  assumes "toLowerCase lo (trim k) \<noteq> js ''yesterday''"
    "toLowerCase lo (trim k) \<noteq> js ''this_week''" "toLowerCase lo (trim k) \<noteq> js ''this week''"
    "toLowerCase lo (trim k) \<noteq> js ''this_month''" "toLowerCase lo (trim k) \<noteq> js ''this month''"
    "toLowerCase lo (trim k) \<noteq> js ''last_12_hours''" "toLowerCase lo (trim k) \<noteq> js ''last_24_hours''"
    "toLowerCase lo (trim k) \<noteq> js ''last_2_days''" "toLowerCase lo (trim k) \<noteq> js ''last_7_days''"
  shows "computeQuickRange lo k now = (startOfDay now, endOfDay now)"
  using assms by (simp add: computeQuickRange_def Let_def setHours_start setHours_end)

lemma normal_examples:
  "toLowerCase lo (trim (js ''TODAY  '')) = js ''today''"
  "toLowerCase lo (trim (js ''unknown-key'')) = js ''unknown-key''"
  "toLowerCase lo (trim (js '''')) = js ''''"
  by (simp_all add: js_def trim_def toLowerCase_def isAscii_def asciiLower_def isWhiteSpace_def)

text \<open>
  Claim C6.  For every clock reading \<open>now\<close> and every host, the keys \<open>"TODAY  "\<close>,
  \<open>"today"\<close>, \<open>"unknown-key"\<close> and the empty string all resolve to the range from
  start-of-day to end-of-day of \<open>now\<close>.  The key enters the result only through its
  trimmed, lowercased form, and every key whose trimmed, lowercased form is none of the
  other labels of the \<open>switch\<close> resolves to that same range; the function is total, so
  no error is signalled.  (A key such as \<open>THIS_WEE\<close> followed by U+212A, which the host
  lowers to \<open>this_week\<close>, is recognized: it resolves as \<open>this_week\<close> does.)
\<close>

theorem resolve_default_case:
  "computeQuickRange lo (js ''TODAY  '') now = (startOfDay now, endOfDay now) \<and>
   computeQuickRange lo (js ''today'') now = (startOfDay now, endOfDay now) \<and>
   computeQuickRange lo (js ''unknown-key'') now = (startOfDay now, endOfDay now) \<and>
   computeQuickRange lo (js '''') now = (startOfDay now, endOfDay now) \<and>
   (\<forall>k k'. toLowerCase lo (trim k) = toLowerCase lo (trim k') \<longrightarrow>
      computeQuickRange lo k now = computeQuickRange lo k' now) \<and>
   (\<forall>k. toLowerCase lo (trim k) \<notin>
        {js ''yesterday'', js ''this_week'', js ''this week'', js ''this_month'', js ''this month'',
         js ''last_12_hours'', js ''last_24_hours'', js ''last_2_days'', js ''last_7_days''} \<longrightarrow>
      computeQuickRange lo k now = (startOfDay now, endOfDay now))"
proof (intro conjI allI impI)
  show "computeQuickRange lo (js ''TODAY  '') now = (startOfDay now, endOfDay now)"
    by (rule cqr_today) (rule normal_examples)
  show "computeQuickRange lo (js ''today'') now = (startOfDay now, endOfDay now)"
    by (rule cqr_today) (rule keys_normal)
  show "computeQuickRange lo (js ''unknown-key'') now = (startOfDay now, endOfDay now)"
    by (rule cqr_default) (simp_all add: normal_examples, simp_all add: js_def)
  show "computeQuickRange lo (js '''') now = (startOfDay now, endOfDay now)"
    by (rule cqr_default) (simp_all add: normal_examples, simp_all add: js_def)
next
  fix k k' assume "toLowerCase lo (trim k) = toLowerCase lo (trim k')"
  then show "computeQuickRange lo k now = computeQuickRange lo k' now"
    by (simp add: computeQuickRange_def)
next
  fix k
  assume "toLowerCase lo (trim k) \<notin>
        {js ''yesterday'', js ''this_week'', js ''this week'', js ''this_month'', js ''this month'',
         js ''last_12_hours'', js ''last_24_hours'', js ''last_2_days'', js ''last_7_days''}"
  then show "computeQuickRange lo k now = (startOfDay now, endOfDay now)"
    by (intro cqr_default) simp_all
qed

theorem resolve_default_case_witness:
  "toLowerCase sampleLower (trim (js '' Next_Year '')) = js ''next_year'' \<and>
   computeQuickRange sampleLower (js '' Next_Year '') 1707568496789 =
     (1707523200000, 1707609599999) \<and>
   toLowerCase sampleLower (trim (js ''THIS_WEE'' @ [0x212A])) =
     toLowerCase sampleLower (trim (js ''this_week'')) \<and>
   computeQuickRange sampleLower (js ''THIS_WEE'' @ [0x212A]) 1707568496789 =
     (1707091200000, 1707609599999)"
proof -
  have n: "toLowerCase sampleLower (trim (js '' Next_Year '')) = js ''next_year''"
    by (simp add: js_def trim_def toLowerCase_def isAscii_def asciiLower_def isWhiteSpace_def)
  have m: "js ''next_year'' \<notin>
        {js ''yesterday'', js ''this_week'', js ''this week'', js ''this_month'', js ''this month'',
         js ''last_12_hours'', js ''last_24_hours'', js ''last_2_days'', js ''last_7_days''}"
    by (simp add: js_def)
  have v: "startOfDay 1707568496789 = 1707523200000" "endOfDay 1707568496789 = 1707609599999"
    by (simp_all add: date_eval)
  have k: "toLowerCase sampleLower (trim (js ''THIS_WEE'' @ [0x212A])) =
      toLowerCase sampleLower (trim (js ''this_week''))"
    by (simp add: js_def trim_def toLowerCase_def isAscii_def asciiLower_def isWhiteSpace_def
        sampleLower_def)
  have w: "computeQuickRange sampleLower (js ''this_week'') 1707568496789 =
      (1707091200000, 1707609599999)"
    by (simp add: cqr_this_week keys_normal date_eval)
  note T = resolve_default_case [where now = 1707568496789 and lo = sampleLower]
  note T5 = T [THEN conjunct2, THEN conjunct2, THEN conjunct2, THEN conjunct2, THEN conjunct1,
      rule_format]
  note T6 = T [THEN conjunct2, THEN conjunct2, THEN conjunct2, THEN conjunct2, THEN conjunct2,
      rule_format]
  have a: "computeQuickRange sampleLower (js '' Next_Year '') 1707568496789 =
      (1707523200000, 1707609599999)"
    unfolding v [symmetric] by (rule T6) (simp only: n, rule m)
  have b: "computeQuickRange sampleLower (js ''THIS_WEE'' @ [0x212A]) 1707568496789 =
      (1707091200000, 1707609599999)"
    unfolding w [symmetric] by (rule T5) (rule k)
  from n a k b show ?thesis by (intro conjI)
qed

lemma WeekDay_monday:
  "(d + 4 - ((if (d + 4) mod 7 = 0 then 7 else (d + 4) mod 7) - 1)) mod 7 = (1::int)"
proof (cases "(d + 4) mod 7 = 0")
  case True
  have "(d + 4 - 6) mod 7 = (d + 4 + 1 - 7) mod 7" by simp
  also have "\<dots> = (d + 4 + 1) mod 7" using mod_shift [of "d + 4 + 1" 7 1] by simp
  also have "\<dots> = ((d + 4) mod 7 + 1) mod 7" by (simp add: mod_add_left_eq)
  finally show ?thesis using True by simp
next
  case False
  have "d + 4 - ((d + 4) mod 7 - 1) = 7 * ((d + 4) div 7) + 1"
    using mult_div_mod_eq [of 7 "d + 4"] by linarith
  moreover have "(7 * ((d + 4) div 7) + 1) mod 7 = (1::int)" by simp
  ultimately show ?thesis using False by (simp only: if_False)
qed

text \<open>
  Claim C8.  \<open>computeQuickRange "this_week"\<close> starts at start-of-day of the Monday of the
  week of \<open>now\<close>, weeks starting on Monday: the start is a midnight, falls on a Monday
  and lies at most six days before the day of \<open>now\<close>; the range ends at end-of-day of
  \<open>now\<close>.  When \<open>now\<close> falls on a Sunday the start is the Monday six days earlier,
  not the day of \<open>now\<close>.
\<close>

theorem this_week_starts_monday:
  "case computeQuickRange lo (js ''this_week'') now of
     (from, to) \<Rightarrow>
       from = startOfDay from \<and> WeekDay from = 1 \<and>
       Day now - 6 \<le> Day from \<and> Day from \<le> Day now \<and>
       to = endOfDay now \<and>
       (WeekDay now = 0 \<longrightarrow> Day from = Day now - 6 \<and> Day from \<noteq> Day now)"
proof -
  define k where "k = (if getDay now = 0 then 7 else getDay now) - 1"
  define frm where "frm = startOfDay (setDate now (getDate now - k))"
  have r: "computeQuickRange lo (js ''this_week'') now = (frm, endOfDay now)"
    by (simp add: cqr_this_week keys_normal frm_def k_def)
  have D: "Day frm = Day now - k"
    by (simp add: frm_def Day_startOfDay Day_setDate)
  have k: "0 \<le> k" "k \<le> 6" using getDay_range [of now] by (auto simp: k_def)
  have s: "frm = startOfDay frm"
    by (simp add: frm_def startOfDay_def Day_startOfDay [unfolded startOfDay_def])
  have w: "WeekDay frm = 1"
    unfolding WeekDay_def D k_def getDay_def WeekDay_def
    using WeekDay_monday [of "Day now"] by (simp add: algebra_simps)
  have sun: "WeekDay now = 0 \<Longrightarrow> k = 6" by (simp add: k_def getDay_def)
  show ?thesis unfolding r using D k s w sun by auto
qed

theorem this_week_starts_monday_witness:
  "WeekDay 1707654896789 = 0 \<and>
   computeQuickRange sampleLower (js ''this_week'') 1707654896789 = (1707091200000, 1707695999999) \<and>
   formatDateTime 1707654896789 = js ''2024-02-11 12:34:56'' \<and>
   formatDateTime 1707091200000 = js ''2024-02-05 00:00:00'' \<and>
   Day 1707091200000 = Day 1707654896789 - 6"
proof -
  have c: "computeQuickRange sampleLower (js ''this_week'') 1707654896789 = (1707091200000, 1707695999999)"
    by (simp add: cqr_this_week keys_normal date_eval)
  have f: "formatDateTime 1707654896789 = js ''2024-02-11 12:34:56''"
    "formatDateTime 1707091200000 = js ''2024-02-05 00:00:00''"
    by (simp_all add: formatDateTime_def formatDate_def pad2_def IntToString_def digits.simps
        js_def date_eval)
  have w: "WeekDay 1707654896789 = 0" by (simp add: date_eval)
  from this_week_starts_monday [where now = 1707654896789 and lo = sampleLower] c f w show ?thesis by simp
qed

lemma startOfDay_idem: "startOfDay (startOfDay t) = startOfDay t"
  by (simp add: startOfDay_def Day_startOfDay [unfolded startOfDay_def])

lemma endOfDay_idem: "endOfDay (endOfDay t) = endOfDay t"
  by (simp add: endOfDay_def Day_endOfDay [unfolded endOfDay_def])

lemma Day_after_endOfDay: "Day (endOfDay t + 1) = Day t + 1"
  using Day_MakeDate [of 0 "Day t + 1"]
  by (simp add: endOfDay_def MakeDate_def msPerDay_def algebra_simps)

lemma MakeDay_next_month_first:
  assumes m: "0 \<le> m" "m \<le> 11" and t: "Day t = MakeDay y (m + 1) 1"
  shows "MonthFromTime t \<noteq> m"
proof (cases "m = 11")
  case True
  then have "Day t = MakeDay (y + 1) 0 1" using t by (simp add: MakeDay_def Let_def)
  then have "MonthFromTime t = 0"
    by (intro MakeDay_inverse(2) [where y = "y + 1" and d = 1]) (simp_all add: DaysInMonth_def)
  with True show ?thesis by simp
next
  case False
  with m have "m + 1 \<le> 11" "0 \<le> m + 1" by simp_all
  then have "MonthFromTime t = m + 1"
    using t DaysInMonth_pos [of "m + 1" "InLeapYearOf y"]
    by (intro MakeDay_inverse(2) [where y = y and d = 1]) simp_all
  then show ?thesis by simp
qed

text \<open>
  Claim C7.  \<open>computeQuickRange "this_month"\<close> starts at midnight of the first day of the
  month of \<open>now\<close> and ends at 23:59:59.999 of the last day of that month (same year and
  month as \<open>now\<close>, and the next millisecond is in another month), the last day being day 0
  of the next month.  The clock reading is taken in a year outside 0 to 99, which
  \<open>new Date(year, month, date)\<close> would read as 1900 + year.  For every \<open>now\<close> on
  2024-02-10 the range is 2024-02-01 00:00:00 to 2024-02-29 23:59:59.
\<close>

theorem this_month_range:
  "(\<not> (0 \<le> YearFromTime now \<and> YearFromTime now \<le> 99) \<longrightarrow>
     (case computeQuickRange lo (js ''this_month'') now of
        (from, to) \<Rightarrow>
          from = startOfDay from \<and> YearFromTime from = YearFromTime now \<and>
          MonthFromTime from = MonthFromTime now \<and> DateFromTime from = 1 \<and>
          to = endOfDay to \<and> YearFromTime to = YearFromTime now \<and>
          MonthFromTime to = MonthFromTime now \<and> MonthFromTime (to + 1) \<noteq> MonthFromTime now \<and>
          Day to = MakeDay (YearFromTime now) (MonthFromTime now + 1) 0)) \<and>
   (\<forall>tod. 0 \<le> tod \<and> tod < msPerDay \<longrightarrow>
      computeQuickRange lo (js ''this_month'') (MakeDate (MakeDay 2024 1 10) tod) =
        (MakeDate (MakeDay 2024 1 1) (MakeTime 0 0 0 0),
         MakeDate (MakeDay 2024 1 29) (MakeTime 23 59 59 999))) \<and>
   formatDateTime (MakeDate (MakeDay 2024 1 1) (MakeTime 0 0 0 0)) = js ''2024-02-01 00:00:00'' \<and>
   formatDateTime (MakeDate (MakeDay 2024 1 29) (MakeTime 23 59 59 999)) = js ''2024-02-29 23:59:59''"
proof (intro conjI impI allI)
  assume yr: "\<not> (0 \<le> YearFromTime now \<and> YearFromTime now \<le> 99)"
  define y where "y = YearFromTime now"
  define m where "m = MonthFromTime now"
  define l :: int where "l = (if InLeapYearOf y then 1 else 0)"
  define frm where "frm = startOfDay (newDate3 y m 1)"
  define til where "til = endOfDay (newDate3 y (m + 1) 0)"
  have m: "0 \<le> m" "m \<le> 11" using MonthFromTime_range [of now] by (simp_all add: m_def)
  have dim: "1 \<le> DaysInMonth m l" unfolding l_def by (rule DaysInMonth_pos)
  have r: "computeQuickRange lo (js ''this_month'') now = (frm, til)"
    by (simp add: cqr_this_month keys_normal frm_def til_def y_def m_def getFullYear_def
        getMonth_def)
  have Df: "Day frm = MakeDay y m 1"
    using yr by (auto simp: frm_def Day_startOfDay Day_newDate3 y_def)
  have Dt0: "Day til = MakeDay y (m + 1) 0"
    using yr by (auto simp: til_def Day_endOfDay Day_newDate3 y_def)
  have Dt: "Day til = MakeDay y m (DaysInMonth m l)"
    unfolding Dt0 l_def by (rule MakeDay_day0 [OF m])
  have Dn: "Day (til + 1) = MakeDay y (m + 1) 1"
    using Dt0 MakeDay_shift [of y "m + 1" 0]
    by (simp add: til_def Day_after_endOfDay Day_endOfDay)
  have f: "YearFromTime frm = y" "MonthFromTime frm = m" "DateFromTime frm = 1"
    using MakeDay_inverse [OF m _ _ Df] dim by (simp_all add: l_def)
  have t: "YearFromTime til = y" "MonthFromTime til = m"
    using MakeDay_inverse(1,2) [OF m _ _ Dt [unfolded l_def]] dim by (simp_all add: l_def)
  have n: "MonthFromTime (til + 1) \<noteq> m"
    by (rule MakeDay_next_month_first [OF m Dn])
  have s: "frm = startOfDay frm" "til = endOfDay til"
    by (simp_all add: frm_def til_def startOfDay_idem endOfDay_idem)
  show "case computeQuickRange lo (js ''this_month'') now of
        (from, to) \<Rightarrow>
          from = startOfDay from \<and> YearFromTime from = YearFromTime now \<and>
          MonthFromTime from = MonthFromTime now \<and> DateFromTime from = 1 \<and>
          to = endOfDay to \<and> YearFromTime to = YearFromTime now \<and>
          MonthFromTime to = MonthFromTime now \<and> MonthFromTime (to + 1) \<noteq> MonthFromTime now \<and>
          Day to = MakeDay (YearFromTime now) (MonthFromTime now + 1) 0"
    unfolding r using f t n s Dt0 by (simp add: y_def [symmetric] m_def [symmetric])
next
  fix tod :: int
  assume tod: "0 \<le> tod \<and> tod < msPerDay"
  define now where "now = MakeDate (MakeDay 2024 1 10) tod"
  have D: "Day now = 19763"
    using tod by (simp add: now_def Day_MakeDate) (simp add: date_eval)
  have y: "getFullYear now = 2024" "getMonth now = 1"
    by (simp_all add: getFullYear_def getMonth_def YearFromTime_def MonthFromTime_def
        DayWithinYear_def InLeapYear_def D YearFromDay_def DayFromYear_def InLeapYearOf_def Let_def)
  show "computeQuickRange lo (js ''this_month'') (MakeDate (MakeDay 2024 1 10) tod) =
        (MakeDate (MakeDay 2024 1 1) (MakeTime 0 0 0 0),
         MakeDate (MakeDay 2024 1 29) (MakeTime 23 59 59 999))"
    unfolding now_def [symmetric]
    by (simp add: cqr_this_month keys_normal y) (simp add: date_eval)
next
  show "formatDateTime (MakeDate (MakeDay 2024 1 1) (MakeTime 0 0 0 0)) = js ''2024-02-01 00:00:00''"
    by (simp add: formatDateTime_def formatDate_def pad2_def IntToString_def digits.simps
        js_def date_eval)
  show "formatDateTime (MakeDate (MakeDay 2024 1 29) (MakeTime 23 59 59 999)) = js ''2024-02-29 23:59:59''"
    by (simp add: formatDateTime_def formatDate_def pad2_def IntToString_def digits.simps
        js_def date_eval)
qed

theorem this_month_range_witness:
  "\<not> (0 \<le> YearFromTime 1707568496789 \<and> YearFromTime 1707568496789 \<le> 99) \<and>
   (0::int) \<le> 45296789 \<and> 45296789 < msPerDay \<and>
   MakeDate (MakeDay 2024 1 10) 45296789 = 1707568496789 \<and>
   computeQuickRange sampleLower (js ''this_month'') 1707568496789 = (1706745600000, 1709251199999) \<and>
   MonthFromTime 1709251199999 = 1 \<and> MonthFromTime (1709251199999 + 1) = 2"
proof -
  have a: "\<not> (0 \<le> YearFromTime 1707568496789 \<and> YearFromTime 1707568496789 \<le> 99)"
    by (simp add: date_eval)
  have b: "(0::int) \<le> 45296789 \<and> 45296789 < msPerDay" by (simp add: msPerDay_def)
  have c: "MakeDate (MakeDay 2024 1 10) 45296789 = 1707568496789"
    "MakeDate (MakeDay 2024 1 1) (MakeTime 0 0 0 0) = 1706745600000"
    "MakeDate (MakeDay 2024 1 29) (MakeTime 23 59 59 999) = 1709251199999"
    by (simp_all add: date_eval)
  have d: "MonthFromTime 1709251199999 = 1" "MonthFromTime (1709251199999 + 1) = 2"
    by (simp_all add: date_eval)
  have "computeQuickRange sampleLower (js ''this_month'') (MakeDate (MakeDay 2024 1 10) 45296789) =
        (MakeDate (MakeDay 2024 1 1) (MakeTime 0 0 0 0),
         MakeDate (MakeDay 2024 1 29) (MakeTime 23 59 59 999))"
    using this_month_range [where now = 1707568496789 and lo = sampleLower] b by blast
  then have e: "computeQuickRange sampleLower (js ''this_month'') 1707568496789 =
      (1706745600000, 1709251199999)"
    by (simp only: c)
  have "case computeQuickRange sampleLower (js ''this_month'') 1707568496789 of
        (from, to) \<Rightarrow> MonthFromTime to = MonthFromTime 1707568496789"
    using this_month_range [where now = 1707568496789 and lo = sampleLower] a by (auto split: prod.splits)
  from a b c(1) d e show ?thesis by simp
qed

section \<open>The range picker: the claims\<close>

text \<open>
  Claim C2.  When either visible input is empty, or either fails to parse as a date, or
  the parsed from is later than the parsed to, the apply handler shows one alert and
  changes nothing else: the resulting state is the prior state with one message added to
  the alerts, so both hidden fields, the summary label, \<open>currentFrom\<close> and \<open>currentTo\<close>
  keep their values, the panel is not closed and the form is not submitted.
\<close>

theorem apply_rejects_without_change:
  "fromInput s = [] \<or> toInput s = [] \<or>
   parseDate h (spaceToT (fromInput s)) = None \<or> parseDate h (spaceToT (toInput s)) = None \<or>
   (\<exists>f t. parseDate h (spaceToT (fromInput s)) = Some f \<and>
          parseDate h (spaceToT (toInput s)) = Some t \<and> f > t) \<Longrightarrow>
   (\<exists>msg. applyClick h s = s\<lparr>alerts := alerts s @ [msg]\<rparr>) \<and>
   hiddenFrom (applyClick h s) = hiddenFrom s \<and> hiddenTo (applyClick h s) = hiddenTo s \<and>
   summaryLabel (applyClick h s) = summaryLabel s \<and>
   currentFrom (applyClick h s) = currentFrom s \<and> currentTo (applyClick h s) = currentTo s \<and>
   panelHidden (applyClick h s) = panelHidden s \<and> overlayHidden (applyClick h s) = overlayHidden s \<and>
   submissions (applyClick h s) = submissions s \<and>
   length (alerts (applyClick h s)) = length (alerts s) + 1"
  by (auto simp: applyClick_def split: option.splits)

lemma parse_examples:
  "isoLocalParse (spaceToT (js ''2024-05-10 10:00:00'')) = Some 1715335200000"
  "isoLocalParse (spaceToT (js ''2024-05-09 10:00:00'')) = Some 1715248800000"
  by (simp_all add: isoLocalParse_def spaceToT_def js_def digitVal_def date_eval)

theorem apply_rejects_without_change_witness:
  "parseDate exampleHost (spaceToT (fromInput examplePage)) = Some 1715335200000 \<and>
   parseDate exampleHost (spaceToT (toInput examplePage)) = Some 1715248800000 \<and>
   (1715335200000 :: int) > 1715248800000 \<and>
   applyClick exampleHost examplePage = examplePage\<lparr>alerts := [js '''From' must be before 'To'.'']\<rparr> \<and>
   hiddenFrom (applyClick exampleHost examplePage) = js ''2024-05-01 00:00:00'' \<and>
   hiddenTo (applyClick exampleHost examplePage) = js ''2024-05-02 23:59:59'' \<and>
   submissions (applyClick exampleHost examplePage) = []"
proof -
  have p: "parseDate exampleHost (spaceToT (fromInput examplePage)) = Some 1715335200000"
    "parseDate exampleHost (spaceToT (toInput examplePage)) = Some 1715248800000"
    by (simp_all add: exampleHost_def examplePage_def parse_examples)
  then have "\<exists>f t. parseDate exampleHost (spaceToT (fromInput examplePage)) = Some f \<and>
          parseDate exampleHost (spaceToT (toInput examplePage)) = Some t \<and> f > t"
    by simp
  then have "hiddenFrom (applyClick exampleHost examplePage) = hiddenFrom examplePage \<and>
     hiddenTo (applyClick exampleHost examplePage) = hiddenTo examplePage \<and>
     submissions (applyClick exampleHost examplePage) = submissions examplePage"
    using apply_rejects_without_change [of examplePage exampleHost] by blast
  moreover have "applyClick exampleHost examplePage = examplePage\<lparr>alerts := [js '''From' must be before 'To'.'']\<rparr>"
    using p by (simp add: applyClick_def) (simp add: examplePage_def js_def)
  ultimately show ?thesis using p by (simp add: examplePage_def)
qed

lemma format_examples:
  "formatDateTime 1715335200000 = js ''2024-05-10 10:00:00''"
  "formatDateTime 1715248800000 = js ''2024-05-09 10:00:00''"
  by (simp_all add: formatDateTime_def formatDate_def pad2_def IntToString_def digits.simps
        js_def date_eval)

text \<open>
  Claim C4.  When both visible inputs are non-empty, parse as dates \<open>f\<close> and \<open>t\<close> and
  \<open>f \<le> t\<close>, the apply handler stores them, writes \<open>formatDateTime f\<close> and
  \<open>formatDateTime t\<close> into the two hidden fields, sets the summary label to the two strings
  joined by the arrow, closes the panel and submits the form exactly once, showing no alert.
\<close>

theorem apply_commits_and_submits_once:
  "fromInput s \<noteq> [] \<Longrightarrow> toInput s \<noteq> [] \<Longrightarrow>
   parseDate h (spaceToT (fromInput s)) = Some f \<Longrightarrow>
   parseDate h (spaceToT (toInput s)) = Some t \<Longrightarrow> f \<le> t \<Longrightarrow>
   applyClick h s =
     s\<lparr>currentFrom := Some f, currentTo := Some t,
       hiddenFrom := formatDateTime f, hiddenTo := formatDateTime t,
       summaryLabel := formatDateTime f @ arrow @ formatDateTime t,
       panelHidden := True, overlayHidden := True,
       submissions := submissions s @ [if hasRequestSubmit h then RequestSubmit else Submit]\<rparr> \<and>
   length (submissions (applyClick h s)) = length (submissions s) + 1 \<and>
   alerts (applyClick h s) = alerts s"
  by (simp add: applyClick_def closePanel_def Let_def)

theorem apply_commits_and_submits_once_witness:
  "fromInput (examplePage\<lparr>fromInput := js ''2024-05-09 10:00:00'', toInput := js ''2024-05-10 10:00:00''\<rparr>) \<noteq> [] \<and>
   parseDate exampleHost (spaceToT (js ''2024-05-09 10:00:00'')) = Some 1715248800000 \<and>
   parseDate exampleHost (spaceToT (js ''2024-05-10 10:00:00'')) = Some 1715335200000 \<and>
   (1715248800000 :: int) \<le> 1715335200000 \<and>
   applyClick exampleHost (examplePage\<lparr>fromInput := js ''2024-05-09 10:00:00'', toInput := js ''2024-05-10 10:00:00''\<rparr>) =
     examplePage\<lparr>fromInput := js ''2024-05-09 10:00:00'', toInput := js ''2024-05-10 10:00:00'',
       currentFrom := Some 1715248800000, currentTo := Some 1715335200000,
       hiddenFrom := js ''2024-05-09 10:00:00'', hiddenTo := js ''2024-05-10 10:00:00'',
       summaryLabel := js ''2024-05-09 10:00:00'' @ arrow @ js ''2024-05-10 10:00:00'',
       panelHidden := True, overlayHidden := True,
       submissions := [RequestSubmit]\<rparr>"
proof -
  define s where "s = examplePage\<lparr>fromInput := js ''2024-05-09 10:00:00'', toInput := js ''2024-05-10 10:00:00''\<rparr>"
  have i: "fromInput s = js ''2024-05-09 10:00:00''" "toInput s = js ''2024-05-10 10:00:00''"
    by (simp_all add: s_def)
  have n: "fromInput s \<noteq> []" "toInput s \<noteq> []" by (simp_all add: i js_def)
  have p: "parseDate exampleHost (spaceToT (fromInput s)) = Some 1715248800000"
    "parseDate exampleHost (spaceToT (toInput s)) = Some 1715335200000"
    by (simp_all add: i exampleHost_def parse_examples)
  have le: "(1715248800000 :: int) \<le> 1715335200000" by simp
  have r: "hasRequestSubmit exampleHost" "submissions s = []" by (simp_all add: exampleHost_def s_def examplePage_def)
  note apply_commits_and_submits_once [OF n p le]
  then show ?thesis
    using n p unfolding i by (simp add: format_examples r) (simp add: s_def)
qed

text \<open>
  Claim C10.  The quick-range click handler, the calendar's selection handler,
  \<open>initFromHidden\<close>, \<open>openPanel\<close> and \<open>closePanel\<close> leave both hidden fields as they
  are, for every host and whatever the widget emits.  The first two do overwrite
  \<open>currentFrom\<close>, \<open>currentTo\<close> and the visible inputs: after a quick-range click both
  variables hold a date and the inputs its formatted form, namely the computed range when
  there is no widget yet or its \<open>setDateRange\<close> emits nothing, and the whole days of the
  two dates the widget passes to the \<open>selected\<close> handler when it emits.  The hidden
  fields are written by the apply handler alone, and when it changes one of them it has
  submitted the form without an alert.
\<close>

theorem hidden_fields_frame:
  "hiddenFrom (quickRangeClick h key now s) = hiddenFrom s \<and>
   hiddenTo (quickRangeClick h key now s) = hiddenTo s \<and>
   hiddenFrom (onSelected date1 date2 s) = hiddenFrom s \<and>
   hiddenTo (onSelected date1 date2 s) = hiddenTo s \<and>
   hiddenFrom (initFromHidden h s) = hiddenFrom s \<and>
   hiddenTo (initFromHidden h s) = hiddenTo s \<and>
   hiddenFrom (openPanel h s) = hiddenFrom s \<and>
   hiddenTo (openPanel h s) = hiddenTo s \<and>
   hiddenFrom (closePanel s) = hiddenFrom s \<and>
   hiddenTo (closePanel s) = hiddenTo s \<and>
   (\<exists>f t. currentFrom (quickRangeClick h key now s) = Some f \<and>
          currentTo (quickRangeClick h key now s) = Some t \<and>
          fromInput (quickRangeClick h key now s) = formatDateTime f \<and>
          toInput (quickRangeClick h key now s) = formatDateTime t) \<and>
   (picker s = None \<or>
    selectedOnSet h (fst (computeQuickRange (unicodeLower h) key now))
      (snd (computeQuickRange (unicodeLower h) key now)) = None \<longrightarrow>
      currentFrom (quickRangeClick h key now s) =
        Some (fst (computeQuickRange (unicodeLower h) key now)) \<and>
      currentTo (quickRangeClick h key now s) =
        Some (snd (computeQuickRange (unicodeLower h) key now)) \<and>
      fromInput (quickRangeClick h key now s) =
        formatDateTime (fst (computeQuickRange (unicodeLower h) key now)) \<and>
      toInput (quickRangeClick h key now s) =
        formatDateTime (snd (computeQuickRange (unicodeLower h) key now))) \<and>
   (picker s \<noteq> None \<and>
    selectedOnSet h (fst (computeQuickRange (unicodeLower h) key now))
      (snd (computeQuickRange (unicodeLower h) key now)) = Some (Some d1, Some d2) \<longrightarrow>
      currentFrom (quickRangeClick h key now s) = Some (startOfDay d1) \<and>
      currentTo (quickRangeClick h key now s) = Some (endOfDay d2) \<and>
      fromInput (quickRangeClick h key now s) = formatDateTime (startOfDay d1) \<and>
      toInput (quickRangeClick h key now s) = formatDateTime (endOfDay d2)) \<and>
   currentFrom (onSelected (Some d1) (Some d2) s) = Some (startOfDay d1) \<and>
   currentTo (onSelected (Some d1) (Some d2) s) = Some (endOfDay d2) \<and>
   fromInput (onSelected (Some d1) (Some d2) s) = formatDateTime (startOfDay d1) \<and>
   toInput (onSelected (Some d1) (Some d2) s) = formatDateTime (endOfDay d2) \<and>
   (hiddenFrom (applyClick h s) \<noteq> hiddenFrom s \<or> hiddenTo (applyClick h s) \<noteq> hiddenTo s \<longrightarrow>
      length (submissions (applyClick h s)) = length (submissions s) + 1 \<and>
      alerts (applyClick h s) = alerts s)"
proof -
  obtain frm til where r: "computeQuickRange (unicodeLower h) key now = (frm, til)"
    by (cases "computeQuickRange (unicodeLower h) key now")
  have a: "hiddenFrom (applyClick h s) \<noteq> hiddenFrom s \<or> hiddenTo (applyClick h s) \<noteq> hiddenTo s \<longrightarrow>
      length (submissions (applyClick h s)) = length (submissions s) + 1 \<and>
      alerts (applyClick h s) = alerts s"
    by (auto simp: applyClick_def closePanel_def Let_def split: option.splits if_splits)
  have c: "hiddenFrom (onSelected x y s') = hiddenFrom s'"
    "hiddenTo (onSelected x y s') = hiddenTo s'" for x y s'
    by (simp_all add: onSelected_def Let_def split: option.splits)
  have sd: "hiddenFrom (setDateRange h f t s') = hiddenFrom s'"
    "hiddenTo (setDateRange h f t s') = hiddenTo s'" for f t s'
    by (simp_all add: setDateRange_def Let_def c split: option.splits prod.splits)
  have q: "hiddenFrom (quickRangeClick h key now s) = hiddenFrom s"
    "hiddenTo (quickRangeClick h key now s) = hiddenTo s"
    by (simp_all add: quickRangeClick_def r Let_def sd)
  have qe: "\<exists>f t. currentFrom (quickRangeClick h key now s) = Some f \<and>
          currentTo (quickRangeClick h key now s) = Some t \<and>
          fromInput (quickRangeClick h key now s) = formatDateTime f \<and>
          toInput (quickRangeClick h key now s) = formatDateTime t"
    by (auto simp: quickRangeClick_def r Let_def setDateRange_def onSelected_def
        split: option.splits prod.splits)
  have qn: "picker s = None \<or> selectedOnSet h frm til = None \<longrightarrow>
      currentFrom (quickRangeClick h key now s) = Some frm \<and>
      currentTo (quickRangeClick h key now s) = Some til \<and>
      fromInput (quickRangeClick h key now s) = formatDateTime frm \<and>
      toInput (quickRangeClick h key now s) = formatDateTime til"
    by (auto simp: quickRangeClick_def r Let_def setDateRange_def)
  have qs: "picker s \<noteq> None \<and> selectedOnSet h frm til = Some (Some d1, Some d2) \<longrightarrow>
      currentFrom (quickRangeClick h key now s) = Some (startOfDay d1) \<and>
      currentTo (quickRangeClick h key now s) = Some (endOfDay d2) \<and>
      fromInput (quickRangeClick h key now s) = formatDateTime (startOfDay d1) \<and>
      toInput (quickRangeClick h key now s) = formatDateTime (endOfDay d2)"
    by (auto simp: quickRangeClick_def r Let_def setDateRange_def onSelected_def
        setHours_start setHours_end)
  have c': "currentFrom (onSelected (Some d1) (Some d2) s) = Some (startOfDay d1)"
    "currentTo (onSelected (Some d1) (Some d2) s) = Some (endOfDay d2)"
    "fromInput (onSelected (Some d1) (Some d2) s) = formatDateTime (startOfDay d1)"
    "toInput (onSelected (Some d1) (Some d2) s) = formatDateTime (endOfDay d2)"
    by (simp_all add: onSelected_def Let_def setHours_start setHours_end)
  have i: "hiddenFrom (initFromHidden h s) = hiddenFrom s"
    "hiddenTo (initFromHidden h s) = hiddenTo s"
    by (simp_all add: initFromHidden_def Let_def split: option.splits)
  have p: "hiddenFrom (positionPanel h s') = hiddenFrom s'"
    "hiddenTo (positionPanel h s') = hiddenTo s'" for s'
    by (simp_all add: positionPanel_def Let_def)
  have o: "hiddenFrom (openPanel h s) = hiddenFrom s" "hiddenTo (openPanel h s) = hiddenTo s"
    by (simp_all add: openPanel_def Let_def p sd split: option.splits)
  have cl: "hiddenFrom (closePanel s) = hiddenFrom s" "hiddenTo (closePanel s) = hiddenTo s"
    by (simp_all add: closePanel_def)
  show ?thesis
    unfolding r fst_conv snd_conv
    by (intro conjI) (fact q c c' i o cl a qe qn qs)+
qed

theorem hidden_fields_frame_witness:
  "picker examplePage = None \<and>
   currentFrom (quickRangeClick exampleHost (js ''last_12_hours'') 1707568496789 examplePage) =
     Some 1707525296789 \<and>
   picker (examplePage\<lparr>picker := Some None\<rparr>) \<noteq> None \<and>
   selectedOnSet exampleHost 1707525296789 1707568496789 =
     Some (Some 1707525296789, Some 1707568496789) \<and>
   currentFrom (quickRangeClick exampleHost (js ''last_12_hours'') 1707568496789
       (examplePage\<lparr>picker := Some None\<rparr>)) = Some 1707523200000 \<and>
   currentTo (quickRangeClick exampleHost (js ''last_12_hours'') 1707568496789
       (examplePage\<lparr>picker := Some None\<rparr>)) = Some 1707609599999 \<and>
   hiddenFrom (quickRangeClick exampleHost (js ''last_12_hours'') 1707568496789
       (examplePage\<lparr>picker := Some None\<rparr>)) = js ''2024-05-01 00:00:00'' \<and>
   hiddenFrom (applyClick exampleHost (examplePage\<lparr>fromInput := js ''2024-05-09 10:00:00'',
       toInput := js ''2024-05-10 10:00:00''\<rparr>)) = js ''2024-05-09 10:00:00'' \<and>
   js ''2024-05-09 10:00:00'' \<noteq> js ''2024-05-01 00:00:00'' \<and>
   length (submissions (applyClick exampleHost (examplePage\<lparr>fromInput := js ''2024-05-09 10:00:00'',
       toInput := js ''2024-05-10 10:00:00''\<rparr>))) = 1"
proof -
  define s where "s = examplePage\<lparr>fromInput := js ''2024-05-09 10:00:00'',
       toInput := js ''2024-05-10 10:00:00''\<rparr>"
  define s' where "s' = examplePage\<lparr>picker := Some None\<rparr>"
  have r: "computeQuickRange (unicodeLower exampleHost) (js ''last_12_hours'') 1707568496789 =
      (1707525296789, 1707568496789)"
    by (simp add: cqr_last_12_hours keys_normal)
  have e: "selectedOnSet exampleHost 1707525296789 1707568496789 =
      Some (Some 1707525296789, Some 1707568496789)"
    by (simp add: exampleHost_def)
  have pn: "picker examplePage = None" by (simp add: examplePage_def)
  have ps: "picker s' \<noteq> None" by (simp add: s'_def)
  have v: "startOfDay 1707525296789 = 1707523200000" "endOfDay 1707568496789 = 1707609599999"
    by (simp_all add: date_eval)
  note T1 = hidden_fields_frame [where h = exampleHost and key = "js ''last_12_hours''"
      and now = 1707568496789 and s = examplePage]
  from T1 pn have w1: "currentFrom (quickRangeClick exampleHost (js ''last_12_hours'')
      1707568496789 examplePage) = Some 1707525296789"
    unfolding r fst_conv snd_conv by blast
  note T2 = hidden_fields_frame [where h = exampleHost and key = "js ''last_12_hours''"
      and now = 1707568496789 and s = s' and ?d1.0 = 1707525296789 and ?d2.0 = 1707568496789]
  from T2 ps e have w2:
    "currentFrom (quickRangeClick exampleHost (js ''last_12_hours'') 1707568496789 s') =
       Some (startOfDay 1707525296789)"
    "currentTo (quickRangeClick exampleHost (js ''last_12_hours'') 1707568496789 s') =
       Some (endOfDay 1707568496789)"
    unfolding r fst_conv snd_conv by blast+
  from T2 have w3:
    "hiddenFrom (quickRangeClick exampleHost (js ''last_12_hours'') 1707568496789 s') =
       hiddenFrom s'"
    by blast
  have p: "parseDate exampleHost (spaceToT (fromInput s)) = Some 1715248800000"
    "parseDate exampleHost (spaceToT (toInput s)) = Some 1715335200000"
    by (simp_all add: s_def exampleHost_def parse_examples)
  have n: "fromInput s \<noteq> []" "toInput s \<noteq> []" by (simp_all add: s_def js_def)
  have h: "hiddenFrom (applyClick exampleHost s) = js ''2024-05-09 10:00:00''"
    using p n by (simp add: applyClick_def closePanel_def Let_def format_examples)
  have h0: "hiddenFrom s = js ''2024-05-01 00:00:00''" "submissions s = []"
    "hiddenFrom s' = js ''2024-05-01 00:00:00''"
    by (simp_all add: s_def s'_def examplePage_def)
  have ne: "js ''2024-05-09 10:00:00'' \<noteq> js ''2024-05-01 00:00:00''" by (simp add: js_def)
  then have "hiddenFrom (applyClick exampleHost s) \<noteq> hiddenFrom s" by (simp add: h h0)
  then have "length (submissions (applyClick exampleHost s)) = length (submissions s) + 1"
    using hidden_fields_frame [where h = exampleHost and s = s] by blast
  then show ?thesis
    using pn w1 ps e w2 w3 h h0 ne unfolding s_def [symmetric] s'_def [symmetric] v by simp
qed

section \<open>Properties of JSON.stringify and JSON.parse\<close>

lemma small_cases:
  "(d::nat) < 10 \<Longrightarrow> d = 9 \<or> d = 8 \<or> d = 7 \<or> d = 6 \<or> d = 5 \<or> d = 4 \<or> d = 3 \<or> d = 2 \<or> d = 1 \<or> d = 0"
  by arith

lemma isDigit_of_nat: "d < 10 \<Longrightarrow> isDigit (of_nat (48 + d))"
  using small_cases [of d] by (auto simp: isDigit_def)

lemma nonzero_of_nat: "0 < d \<Longrightarrow> d < 10 \<Longrightarrow> (of_nat (48 + d) :: jschar) \<noteq> 0x30"
  using small_cases [of d] by auto

lemma isDigit_of_nat': "d < 10 \<Longrightarrow> isDigit (48 + word_of_nat d)"
  using isDigit_of_nat [of d] by simp

lemma nonzero_of_nat': "0 < d \<Longrightarrow> d < 10 \<Longrightarrow> (word_of_nat d :: jschar) \<noteq> 0"
  using nonzero_of_nat [of d] by simp

lemma digits_all: "list_all isDigit (digits n)"
proof (induction n rule: digits.induct)
  case (1 n)
  show ?case
  proof (cases "n < 10")
    case True
    then show ?thesis by (subst digits.simps) (simp add: isDigit_of_nat')
  next
    case False
    then show ?thesis using 1 by (subst digits.simps) (simp add: isDigit_of_nat')
  qed
qed

lemma digits_nonempty: "digits n \<noteq> []"
  by (subst digits.simps) simp

lemma digits_hd: "0 < n \<Longrightarrow> hd (digits n) \<noteq> 0x30"
proof (induction n rule: digits.induct)
  case (1 n)
  show ?case
  proof (cases "n < 10")
    case True
    then show ?thesis using 1(2) by (subst digits.simps) (simp add: nonzero_of_nat')
  next
    case False
    then have "0 < n div 10" by simp
    with False 1 have "hd (digits (n div 10)) \<noteq> 0x30" by simp
    then show ?thesis using False digits_nonempty [of "n div 10"]
      by (subst digits.simps) simp
  qed
qed

lemma numRun_append:
  "numRun q (s @ t) = (case numRun q s of None \<Rightarrow> None | Some q' \<Rightarrow> numRun q' t)"
  by (induction s arbitrary: q) (auto split: option.splits)

lemma digit_not_special:
  "isDigit c \<Longrightarrow> c \<noteq> 0x2D \<and> c \<noteq> 0x2E \<and> c \<noteq> 0x65 \<and> c \<noteq> 0x45 \<and> c \<noteq> 0x2B"
  by (auto simp: isDigit_def)

lemma numRun_digits:
  assumes "list_all isDigit s"
  shows "numRun NInt s = Some NInt" "numRun NFrac s = Some NFrac" "numRun NExp s = Some NExp"
  using assms by (induction s) simp_all

lemma numRun_digits1:
  assumes "list_all isDigit s" "s \<noteq> []"
  shows "numRun NDot s = Some NFrac" "numRun NE s = Some NExp" "numRun NESign s = Some NExp"
  using assms by (cases s; simp add: numRun_digits digit_not_special)+

lemma numRun_lead:
  assumes "list_all isDigit s" "s \<noteq> []" "hd s \<noteq> 0x30"
  shows "numRun NStart s = Some NInt" "numRun NMinus s = Some NInt"
  using assms by (cases s; simp add: numRun_digits digit_not_special)+

lemma list_all_take_drop:
  "list_all P xs \<Longrightarrow> list_all P (take i xs) \<and> list_all P (drop i xs)"
  by (metis append_take_drop_id list_all_append)

lemma numRun_body:
  assumes q: "q = NStart \<or> q = NMinus"
    and ds: "list_all isDigit ds" "ds \<noteq> []" "hd ds \<noteq> 0x30"
    and ex: "list_all isDigit ex" "ex \<noteq> []"
  shows "numRun q (ds @ replicate m 0x30) = Some NInt"
    and "0 < i \<Longrightarrow> i < length ds \<Longrightarrow> numRun q (take i ds @ js ''.'' @ drop i ds) = Some NFrac"
    and "numRun q (js ''0.'' @ replicate m 0x30 @ ds) = Some NFrac"
    and "numRun q (ds @ js ''e'' @ js ''-'' @ ex) = Some NExp"
    and "numRun q (ds @ js ''e'' @ js ''+'' @ ex) = Some NExp"
    and "1 < length ds \<Longrightarrow>
         numRun q (take 1 ds @ js ''.'' @ drop 1 ds @ js ''e'' @ js ''-'' @ ex) = Some NExp"
    and "1 < length ds \<Longrightarrow>
         numRun q (take 1 ds @ js ''.'' @ drop 1 ds @ js ''e'' @ js ''+'' @ ex) = Some NExp"
proof -
  have lead: "numRun q ds = Some NInt"
    using q numRun_lead [OF ds] by auto
  have z: "list_all isDigit (replicate m (0x30 :: jschar))"
    by (simp add: list_all_iff isDigit_def)
  show "numRun q (ds @ replicate m 0x30) = Some NInt"
    by (simp add: numRun_append lead numRun_digits z)
  have tk: "0 < j \<Longrightarrow> numRun q (take j ds) = Some NInt" for j
  proof -
    assume "0 < j"
    then have "take j ds \<noteq> []" "hd (take j ds) = hd ds" using ds(2) by (cases ds; simp)+
    then show ?thesis
      using q numRun_lead [of "take j ds"] list_all_take_drop [OF ds(1), of j] ds(3) by auto
  qed
  have dr: "j < length ds \<Longrightarrow> numRun NDot (drop j ds) = Some NFrac" for j
    using numRun_digits1(1) [of "drop j ds"] list_all_take_drop [OF ds(1), of j] by simp
  have e1: "numRun NInt (js ''e'' @ js ''-'' @ ex) = Some NExp"
    "numRun NInt (js ''e'' @ js ''+'' @ ex) = Some NExp"
    "numRun NFrac (js ''e'' @ js ''-'' @ ex) = Some NExp"
    "numRun NFrac (js ''e'' @ js ''+'' @ ex) = Some NExp"
    using numRun_digits1(3) [OF ex] by (simp_all add: js_def isDigit_def)
  show "0 < i \<Longrightarrow> i < length ds \<Longrightarrow> numRun q (take i ds @ js ''.'' @ drop i ds) = Some NFrac"
    using dr [of i] by (simp add: numRun_append tk) (simp add: js_def isDigit_def)
  show "numRun q (js ''0.'' @ replicate m 0x30 @ ds) = Some NFrac"
  proof -
    have "numRun NDot (replicate m 0x30 @ ds) = Some NFrac"
      using numRun_digits1(1) [of "replicate m 0x30 @ ds"] z ds by simp
    then show ?thesis using q by (auto simp: js_def isDigit_def)
  qed
  have step: "numRun q (ds @ rest) = numRun NInt rest" for rest
    by (simp add: numRun_append lead)
  show "numRun q (ds @ js ''e'' @ js ''-'' @ ex) = Some NExp"
    by (simp only: step e1)
  show "numRun q (ds @ js ''e'' @ js ''+'' @ ex) = Some NExp"
    by (simp only: step e1)
  have mid: "1 < length ds \<Longrightarrow> numRun NInt (js ''.'' @ drop 1 ds) = Some NFrac"
    using dr [of 1] by (simp add: js_def isDigit_def)
  show "1 < length ds \<Longrightarrow>
         numRun q (take 1 ds @ js ''.'' @ drop 1 ds @ js ''e'' @ js ''-'' @ ex) = Some NExp"
    using tk [of 1] mid numRun_append [of NInt "js ''.'' @ drop 1 ds" "js ''e'' @ js ''-'' @ ex"]
    by (simp add: numRun_append [of q] e1)
  show "1 < length ds \<Longrightarrow>
         numRun q (take 1 ds @ js ''.'' @ drop 1 ds @ js ''e'' @ js ''+'' @ ex) = Some NExp"
    using tk [of 1] mid numRun_append [of NInt "js ''.'' @ drop 1 ds" "js ''e'' @ js ''+'' @ ex"]
    by (simp add: numRun_append [of q] e1)
qed

lemma NumberToString_valid: "isJsonNumber (NumberToString x)"
proof (cases x)
  case (Num neg s e)
  show ?thesis
  proof (cases "s = 0")
    case True
    then show ?thesis by (simp add: Num NumberToString_def isJsonNumber_def js_def)
  next
    case False
    define ds where "ds = digits s"
    define n where "n = int (length ds) + e"
    define ex where "ex = digits (nat \<bar>n - 1\<bar>)"
    define q where "q = (if neg then NMinus else NStart)"
    have ds: "list_all isDigit ds" "ds \<noteq> []" "hd ds \<noteq> 0x30"
      using False by (simp_all add: ds_def digits_all digits_nonempty digits_hd)
    have ex: "list_all isDigit ex" "ex \<noteq> []"
      by (simp_all add: ex_def digits_all digits_nonempty)
    have q: "q = NStart \<or> q = NMinus" by (simp add: q_def)
    note B = numRun_body [OF q ds ex]
    define c1 where "c1 \<longleftrightarrow> int (length ds) \<le> n \<and> n \<le> 21"
    define c2 where "c2 \<longleftrightarrow> 0 < n \<and> n \<le> 21"
    define c3 where "c3 \<longleftrightarrow> - 6 < n \<and> n \<le> 0"
    define c4 where "c4 \<longleftrightarrow> int (length ds) = 1"
    define sg where "sg = (if n - 1 < 0 then js ''-'' else js ''+'')"
    define body where "body =
      (if c1 then ds @ replicate (nat (n - int (length ds))) 0x30
       else if c2 then take (nat n) ds @ js ''.'' @ drop (nat n) ds
       else if c3 then js ''0.'' @ replicate (nat (- n)) 0x30 @ ds
       else if c4 then ds @ js ''e'' @ sg @ ex
       else take 1 ds @ js ''.'' @ drop 1 ds @ js ''e'' @ sg @ ex)"
    have len: "1 \<le> length ds" using ds(2) by (cases ds) simp_all
    have sg: "sg = js ''-'' \<or> sg = js ''+''" by (simp add: sg_def)
    have "numRun q body \<in> {Some NInt, Some NFrac, Some NExp}"
    proof -
      consider (a) c1 | (b) "\<not> c1" c2 | (c) "\<not> c1" "\<not> c2" c3
        | (d) "\<not> c1" "\<not> c2" "\<not> c3" c4 | (e) "\<not> c1" "\<not> c2" "\<not> c3" "\<not> c4"
        by blast
      then show ?thesis
      proof cases
        case a
        then show ?thesis by (simp add: body_def B(1))
      next
        case b
        then have "0 < nat n" "nat n < length ds" by (auto simp: c1_def c2_def)
        then show ?thesis using b B(2) [of "nat n"] by (simp add: body_def)
      next
        case c
        then show ?thesis by (simp add: body_def B(3))
      next
        case d
        then have "body = ds @ js ''e'' @ sg @ ex" by (simp add: body_def)
        then show ?thesis using sg B(4,5) by auto
      next
        case e
        then have l: "1 < length ds" using len by (simp add: c4_def)
        from e have "body = take 1 ds @ js ''.'' @ drop 1 ds @ js ''e'' @ sg @ ex"
          by (simp add: body_def)
        then show ?thesis using sg B(6,7) l by auto
      qed
    qed
    moreover have "NumberToString x = (if neg then js ''-'' else []) @ body"
      using False
      by (simp add: Num NumberToString_def Let_def body_def ds_def n_def ex_def c1_def c2_def
          c3_def c4_def sg_def)
    moreover have "numRun NStart ((if neg then js ''-'' else []) @ body) = numRun q body"
      by (simp add: q_def js_def)
    ultimately show ?thesis by (auto simp: isJsonNumber_def)
  qed
qed

lemma lexRun_MTop_Cons:
  "lexRun MTop acc (c # cs) =
     (case topChar acc c of None \<Rightarrow> None | Some (m', acc') \<Rightarrow> lexRun m' acc' cs)"
  by simp

lemma lex_close_word:
  assumes "delimited rest" "closeWord span = Some t"
  shows "lexRun (MWord span) acc rest = lexRun MTop (t # acc) rest"
  using assms by (cases rest) (simp_all add: delimited_def)

lemma lex_close_num:
  assumes "delimited rest" "closeNum span = Some t"
  shows "lexRun (MNum span) acc rest = lexRun MTop (t # acc) rest"
  using assms by (cases rest) (simp_all add: delimited_def)

lemma lex_num_chars:
  "list_all isNumberChar s \<Longrightarrow>
   lexRun (MNum span) acc (s @ rest) = lexRun (MNum (rev s @ span)) acc rest"
  by (induction s arbitrary: span) simp_all

lemma lex_lower_chars:
  "list_all isLower s \<Longrightarrow>
   lexRun (MWord span) acc (s @ rest) = lexRun (MWord (rev s @ span)) acc rest"
  by (induction s arbitrary: span) simp_all

lemma numStep_numberChar: "numStep q c = Some q' \<Longrightarrow> isNumberChar c"
  by (cases q) (auto simp: isNumberChar_def isDigit_def split: if_splits)

lemma numRun_numberChars: "numRun q s = Some q' \<Longrightarrow> list_all isNumberChar s"
  by (induction s arbitrary: q) (auto split: option.splits dest: numStep_numberChar)

lemma topChar_number:
  "c = 0x2D \<or> isDigit c \<Longrightarrow> topChar acc c = Some (MNum [c], acc)"
  by (auto simp: topChar_def isJsonSpace_def isDigit_def)

lemma lex_number:
  assumes "delimited rest"
  shows "lexRun MTop acc (NumberToString x @ rest) =
         lexRun MTop (TNumber (StringToNumber (NumberToString x)) # acc) rest"
proof -
  define s where "s = NumberToString x"
  have v: "isJsonNumber s" by (simp add: s_def NumberToString_valid)
  then obtain q where q: "numRun NStart s = Some q" by (auto simp: isJsonNumber_def)
  then have nc: "list_all isNumberChar s" by (rule numRun_numberChars)
  from v obtain c cs where s: "s = c # cs" by (cases s) (auto simp: isJsonNumber_def)
  have "numStep NStart c \<noteq> None"
  proof
    assume "numStep NStart c = None"
    then have "numRun NStart (c # cs) = None" by (simp only: numRun.simps option.case)
    with q s show False by simp
  qed
  then have c: "c = 0x2D \<or> isDigit c"
    by (simp add: isDigit_def split: if_splits)
  have "lexRun MTop acc (s @ rest) = lexRun (MNum [c]) acc (cs @ rest)"
    unfolding s by (simp add: topChar_number [OF c])
  also have "\<dots> = lexRun (MNum (rev cs @ [c])) acc rest"
    using nc unfolding s by (simp add: lex_num_chars)
  also have "\<dots> = lexRun MTop (TNumber (StringToNumber s) # acc) rest"
    using v by (intro lex_close_num assms) (simp add: closeNum_def s)
  finally show ?thesis by (simp add: s_def)
qed

lemma topChar_lower_n: "topChar acc 0x6E = Some (MWord [0x6E], acc)"
  by (simp add: topChar_def isJsonSpace_def isDigit_def isLower_def)

lemma topChar_lower_t: "topChar acc 0x74 = Some (MWord [0x74], acc)"
  by (simp add: topChar_def isJsonSpace_def isDigit_def isLower_def)

lemma topChar_lower_f: "topChar acc 0x66 = Some (MWord [0x66], acc)"
  by (simp add: topChar_def isJsonSpace_def isDigit_def isLower_def)

lemma lex_null:
  assumes "delimited rest"
  shows "lexRun MTop acc (js ''null'' @ rest) = lexRun MTop (TNull # acc) rest"
proof -
  have "lexRun MTop acc (js ''null'' @ rest) = lexRun (MWord (rev (js ''null''))) acc rest"
    by (simp add: js_def topChar_lower_n isLower_def)
  also have "\<dots> = lexRun MTop (TNull # acc) rest"
    by (intro lex_close_word assms) (simp add: closeWord_def js_def)
  finally show ?thesis .
qed

lemma lex_true:
  assumes "delimited rest"
  shows "lexRun MTop acc (js ''true'' @ rest) = lexRun MTop (TTrue # acc) rest"
proof -
  have "lexRun MTop acc (js ''true'' @ rest) = lexRun (MWord (rev (js ''true''))) acc rest"
    by (simp add: js_def topChar_lower_t isLower_def)
  also have "\<dots> = lexRun MTop (TTrue # acc) rest"
    by (intro lex_close_word assms) (simp add: closeWord_def js_def)
  finally show ?thesis .
qed

lemma lex_false:
  assumes "delimited rest"
  shows "lexRun MTop acc (js ''false'' @ rest) = lexRun MTop (TFalse # acc) rest"
proof -
  have "lexRun MTop acc (js ''false'' @ rest) = lexRun (MWord (rev (js ''false''))) acc rest"
    by (simp add: js_def topChar_lower_f isLower_def)
  also have "\<dots> = lexRun MTop (TFalse # acc) rest"
    by (intro lex_close_word assms) (simp add: closeWord_def js_def)
  finally show ?thesis .
qed

lemma hex_cases:
  "(h::nat) < 16 \<Longrightarrow> h = 15 \<or> h = 14 \<or> h = 13 \<or> h = 12 \<or> h = 11 \<or> h = 10 \<or> h = 9 \<or> h = 8 \<or>
     h = 7 \<or> h = 6 \<or> h = 5 \<or> h = 4 \<or> h = 3 \<or> h = 2 \<or> h = 1 \<or> h = 0"
  by arith

lemma hexVal_hexDigit:
  assumes "n < 16"
  shows "hexVal (hexDigit n) = Some n"
  using hex_cases [OF assms] by (elim disjE) (simp_all add: hexVal_def hexDigit_def)

lemma hex_expand:
  fixes u :: nat
  shows "4096 * (u div 4096) + 256 * (u div 256 mod 16) + 16 * (u div 16 mod 16) + u mod 16 = u"
proof -
  have d: "u div 16 div 16 = u div 256" "u div 256 div 16 = u div 4096"
    by (simp_all add: div_mult2_eq [symmetric])
  have a: "u = 16 * (u div 16) + u mod 16" by simp
  have b: "u div 16 = 16 * (u div 256) + u div 16 mod 16"
    using mult_div_mod_eq [of 16 "u div 16"] unfolding d by simp
  have c: "u div 256 = 16 * (u div 4096) + u div 256 mod 16"
    using mult_div_mod_eq [of 16 "u div 256"] unfolding d by simp
  from a b c show ?thesis by linarith
qed

lemma lex_UnicodeEscape:
  "lexRun (MStr a) acc (UnicodeEscape c @ rest) = lexRun (MStr (c # a)) acc rest"
proof -
  define u where "u = unat c"
  have u: "u < 65536" using unsigned_less [of c, where ?'a = nat] by (simp add: u_def)
  then have r: "u div 4096 < 16" "u div 256 mod 16 < 16" "u div 16 mod 16 < 16" "u mod 16 < 16"
    by simp_all
  have v: "(of_nat (4096 * (u div 4096) + 256 * (u div 256 mod 16) + 16 * (u div 16 mod 16)
      + u mod 16) :: jschar) = c"
    unfolding hex_expand by (simp add: u_def)
  have "lexRun (MStr a) acc (UnicodeEscape c @ rest) =
     lexRun (MStr (of_nat (4096 * (u div 4096) + 256 * (u div 256 mod 16) + 16 * (u div 16 mod 16)
      + u mod 16) # a)) acc rest"
    by (simp add: UnicodeEscape_def u_def [symmetric] hexVal_hexDigit r del: of_nat_add of_nat_mult)
  then show ?thesis unfolding v .
qed

lemma lex_quoteUnit:
  "lexRun (MStr a) acc (quoteUnit c @ rest) = lexRun (MStr (c # a)) acc rest"
proof -
  consider "c = 0x8" | "c = 0x9" | "c = 0xA" | "c = 0xC" | "c = 0xD" | "c = 0x22" | "c = 0x5C"
    | (esc) "c \<noteq> 0x8" "c \<noteq> 0x9" "c \<noteq> 0xA" "c \<noteq> 0xC" "c \<noteq> 0xD" "c \<noteq> 0x22" "c \<noteq> 0x5C"
        "c < 0x20 \<or> isLeadingSurrogate c \<or> isTrailingSurrogate c"
    | (lit) "c \<noteq> 0x8" "c \<noteq> 0x9" "c \<noteq> 0xA" "c \<noteq> 0xC" "c \<noteq> 0xD" "c \<noteq> 0x22" "c \<noteq> 0x5C"
        "\<not> (c < 0x20 \<or> isLeadingSurrogate c \<or> isTrailingSurrogate c)"
    by blast
  then show ?thesis
  proof cases
    case esc
    then have "quoteUnit c = UnicodeEscape c" by (simp add: quoteUnit_def)
    then show ?thesis by (simp add: lex_UnicodeEscape)
  next
    case lit
    then have "quoteUnit c = [c]" by (simp add: quoteUnit_def)
    then show ?thesis using lit by simp
  qed (simp_all add: quoteUnit_def unescape_def)
qed

lemma surrogate_literal:
  assumes "isLeadingSurrogate c \<or> isTrailingSurrogate c"
  shows "lexStep (MStr a) acc c = Some (MStr (c # a), acc)"
proof -
  have "0xD800 \<le> c" using assms
    by (auto simp: isLeadingSurrogate_def isTrailingSurrogate_def word_le_nat_alt)
  then have "c \<noteq> 0x22" "c \<noteq> 0x5C" "\<not> c < 0x20"
    by (auto simp: word_le_nat_alt word_less_nat_alt)
  then show ?thesis by simp
qed

lemma lex_quoteBody:
  "lexRun (MStr a) acc (quoteBody s @ 0x22 # rest) = lexRun MTop (TString (rev a @ s) # acc) rest"
proof (induction s arbitrary: a rule: quoteBody.induct)
  case 1
  show ?case by simp
next
  case (2 c)
  show ?case by (simp add: lex_quoteUnit)
next
  case (3 c d cs)
  show ?case
  proof (cases "isLeadingSurrogate c \<and> isTrailingSurrogate d")
    case True
    from True have s1: "lexStep (MStr a) acc c = Some (MStr (c # a), acc)"
      by (intro surrogate_literal) simp
    from True have s2: "lexStep (MStr (c # a)) acc d = Some (MStr (d # c # a), acc)"
      by (intro surrogate_literal) simp
    from True have q: "quoteBody (c # d # cs) = c # d # quoteBody cs" by simp
    have "lexRun (MStr a) acc (quoteBody (c # d # cs) @ 0x22 # rest) =
        lexRun (MStr (d # c # a)) acc (quoteBody cs @ 0x22 # rest)"
      by (simp only: q append_Cons lexRun.simps s1 s2 option.case prod.case)
    then show ?thesis using 3(1) [OF True, of "d # c # a"] by simp
  next
    case False
    then have "lexRun (MStr a) acc (quoteBody (c # d # cs) @ 0x22 # rest) =
        lexRun (MStr (c # a)) acc (quoteBody (d # cs) @ 0x22 # rest)"
      by (simp only: quoteBody.simps if_False append_assoc lex_quoteUnit)
    then show ?thesis using 3(2) [OF False, of "c # a"] by simp
  qed
qed

lemma lex_string:
  "lexRun MTop acc (QuoteJSONString s @ rest) = lexRun MTop (TString s # acc) rest"
  using lex_quoteBody [of "[]" acc s rest]
  by (simp add: QuoteJSONString_def topChar_def isJsonSpace_def)

lemma lex_punct:
  "lexRun MTop acc (0x5B # r) = lexRun MTop (TLBrack # acc) r"
  "lexRun MTop acc (0x5D # r) = lexRun MTop (TRBrack # acc) r"
  "lexRun MTop acc (0x7B # r) = lexRun MTop (TLBrace # acc) r"
  "lexRun MTop acc (0x7D # r) = lexRun MTop (TRBrace # acc) r"
  "lexRun MTop acc (0x3A # r) = lexRun MTop (TColon # acc) r"
  "lexRun MTop acc (0x2C # r) = lexRun MTop (TComma # acc) r"
  by (simp_all add: topChar_def isJsonSpace_def)

lemma delimited_punct:
  "delimited (0x5D # r)" "delimited (0x7D # r)" "delimited (0x2C # r)" "delimited []"
  by (simp_all add: delimited_def isNumberChar_def isDigit_def isLower_def)

lemma lex_join:
  assumes "\<And>x acc rest. x \<in> set xs \<Longrightarrow> delimited rest \<Longrightarrow>
             lexRun MTop acc (S x @ rest) = lexRun MTop (rev (T x) @ acc) rest"
    and "delimited rest"
  shows "lexRun MTop acc (joinWith (js '','') (map S xs) @ rest) =
         lexRun MTop (rev (joinTokens (map T xs)) @ acc) rest"
  using assms(1)
proof (induction xs arbitrary: acc)
  case Nil
  show ?case by simp
next
  case (Cons x xs)
  show ?case
  proof (cases xs)
    case Nil
    then show ?thesis using assms(2) by (simp add: Cons.prems)
  next
    case (Cons y ys)
    have "lexRun MTop acc (joinWith (js '','') (map S (x # y # ys)) @ rest) =
          lexRun MTop acc (S x @ 0x2C # joinWith (js '','') (map S (y # ys)) @ rest)"
      by (simp add: js_def)
    also have "\<dots> = lexRun MTop (rev (T x) @ acc)
          (0x2C # joinWith (js '','') (map S (y # ys)) @ rest)"
      by (rule Cons.prems) (simp_all add: delimited_punct)
    also have "\<dots> = lexRun MTop (TComma # rev (T x) @ acc)
          (joinWith (js '','') (map S (y # ys)) @ rest)"
      by (simp only: lex_punct)
    also have "\<dots> = lexRun MTop (rev (joinTokens (map T (y # ys))) @ TComma # rev (T x) @ acc) rest"
      using Cons.IH [of "TComma # rev (T x) @ acc"] Cons.prems unfolding Cons by simp
    finally show ?thesis unfolding Cons by simp
  qed
qed

lemma lex_value:
  "delimited rest \<Longrightarrow>
   lexRun MTop acc (JSON_stringify v @ rest) = lexRun MTop (rev (tokensOf v) @ acc) rest"
proof (induction v arbitrary: acc rest)
  case JNull
  then show ?case by (simp add: lex_null)
next
  case (JBool b)
  then show ?case by (simp add: lex_true lex_false)
next
  case (JNum x)
  then show ?case by (simp add: lex_number)
next
  case (JStr s)
  then show ?case by (simp add: lex_string)
next
  case (JArr xs)
  have "lexRun MTop acc (JSON_stringify (JArr xs) @ rest) =
        lexRun MTop (TLBrack # acc) (joinWith (js '','') (map JSON_stringify xs) @ 0x5D # rest)"
    by (simp add: js_def lex_punct del: lexRun.simps)
  also have "\<dots> = lexRun MTop (rev (joinTokens (map tokensOf xs)) @ TLBrack # acc) (0x5D # rest)"
    by (rule lex_join) (simp_all add: JArr.IH delimited_punct)
  also have "\<dots> = lexRun MTop (rev (tokensOf (JArr xs)) @ acc) rest"
    by (simp add: lex_punct del: lexRun.simps)
  finally show ?case .
next
  case (JObj kvs)
  let ?S = "\<lambda>kv. QuoteJSONString (fst kv) @ js '':'' @ JSON_stringify (snd kv)"
  let ?T = "\<lambda>kv. TString (fst kv) # TColon # tokensOf (snd kv)"
  have el: "lexRun MTop acc' (?S kv @ rest') = lexRun MTop (rev (?T kv) @ acc') rest'"
    if "kv \<in> set kvs" "delimited rest'" for kv acc' rest'
  proof -
    have "snd kv \<in> Basic_BNFs.snds kv" by (cases kv) simp
    then have "lexRun MTop (TColon # TString (fst kv) # acc') (JSON_stringify (snd kv) @ rest') =
        lexRun MTop (rev (tokensOf (snd kv)) @ TColon # TString (fst kv) # acc') rest'"
      using JObj.IH that by blast
    then show ?thesis by (simp add: lex_string js_def lex_punct del: lexRun.simps)
  qed
  have "lexRun MTop acc (JSON_stringify (JObj kvs) @ rest) =
        lexRun MTop (TLBrace # acc) (joinWith (js '','') (map ?S kvs) @ 0x7D # rest)"
    by (simp add: js_def lex_punct del: lexRun.simps)
  also have "\<dots> = lexRun MTop (rev (joinTokens (map ?T kvs)) @ TLBrace # acc) (0x7D # rest)"
    by (rule lex_join) (simp_all only: el delimited_punct)
  also have "\<dots> = lexRun MTop (rev (tokensOf (JObj kvs)) @ acc) rest"
    by (simp add: lex_punct del: lexRun.simps)
  finally show ?case .
qed

lemma lex_stringify: "lexRun MTop [] (JSON_stringify v) = Some (tokensOf v)"
  using lex_value [of "[]" "[]" v] by (simp add: delimited_punct)

lemma tokensOf_hd:
  "\<exists>t r. tokensOf v = t # r \<and> t \<noteq> TRBrack"
  by (cases v) auto

lemma prun_ArrStart:
  "prun (Run EArrStart (FArr xs # fs)) (tokensOf v @ ts) =
   prun (Run EValue (FArr xs # fs)) (tokensOf v @ ts)"
proof -
  obtain t r where "tokensOf v = t # r" "t \<noteq> TRBrack" using tokensOf_hd by blast
  then show ?thesis by simp
qed

lemma prun_elems:
  assumes "\<And>x fs ts. x \<in> set xs \<Longrightarrow>
             prun (Run EValue fs) (tokensOf x @ ts) =
               (case deliver fs (reread x) of None \<Rightarrow> None | Some st \<Rightarrow> prun st ts)"
    and "xs \<noteq> []"
  shows "prun (Run EValue (FArr acc # fs)) (joinTokens (map tokensOf xs) @ TRBrack # ts) =
         (case deliver fs (JArr (rev acc @ map reread xs)) of
            None \<Rightarrow> None | Some st \<Rightarrow> prun st ts)"
  using assms
proof (induction xs arbitrary: acc)
  case Nil
  then show ?case by simp
next
  case (Cons x xs)
  have step: "prun (Run EValue (FArr acc # fs)) (tokensOf x @ rest) =
      prun (Run EAfter (FArr (reread x # acc) # fs)) rest" for rest
    by (simp add: Cons.prems(1))
  show ?case
  proof (cases xs)
    case Nil
    then show ?thesis by (simp add: step)
  next
    case (Cons y ys)
    have "prun (Run EValue (FArr acc # fs)) (joinTokens (map tokensOf (x # y # ys)) @ TRBrack # ts) =
        prun (Run EValue (FArr (reread x # acc) # fs))
          (joinTokens (map tokensOf (y # ys)) @ TRBrack # ts)"
      by (simp add: step)
    also have "\<dots> = (case deliver fs (JArr (rev (reread x # acc) @ map reread (y # ys))) of
            None \<Rightarrow> None | Some st \<Rightarrow> prun st ts)"
      using Cons.IH [of "reread x # acc"] Cons.prems(1) unfolding Cons by simp
    finally show ?thesis unfolding Cons by simp
  qed
qed

lemma prun_members:
  assumes "\<And>kv fs ts. kv \<in> set kvs \<Longrightarrow>
             prun (Run EValue fs) (tokensOf (snd kv) @ ts) =
               (case deliver fs (reread (snd kv)) of None \<Rightarrow> None | Some st \<Rightarrow> prun st ts)"
    and "kvs \<noteq> []" and "e = EObjStart \<or> e = EKey"
  shows "prun (Run e (FObj acc None # fs))
           (joinTokens (map (\<lambda>kv. TString (fst kv) # TColon # tokensOf (snd kv)) kvs) @
            TRBrace # ts) =
         (case deliver fs
                 (JObj (foldl (\<lambda>acc kv. putProp (fst kv) (snd kv) acc) acc
                          (map (\<lambda>kv. (fst kv, reread (snd kv))) kvs))) of
            None \<Rightarrow> None | Some st \<Rightarrow> prun st ts)"
  using assms
proof (induction kvs arbitrary: acc e)
  case Nil
  then show ?case by simp
next
  case (Cons kv kvs)
  let ?T = "\<lambda>kv. TString (fst kv) # TColon # tokensOf (snd kv)"
  have step: "prun (Run e (FObj acc None # fs)) (?T kv @ rest) =
      prun (Run EAfter (FObj (putProp (fst kv) (reread (snd kv)) acc) None # fs)) rest" for rest
    using Cons.prems(3) by (auto simp: Cons.prems(1))
  show ?case
  proof (cases kvs)
    case Nil
    then show ?thesis using step [of "TRBrace # ts"] by simp
  next
    case (Cons kv' kvs')
    have "prun (Run e (FObj acc None # fs)) (joinTokens (map ?T (kv # kv' # kvs')) @ TRBrace # ts) =
        prun (Run EKey (FObj (putProp (fst kv) (reread (snd kv)) acc) None # fs))
          (joinTokens (map ?T (kv' # kvs')) @ TRBrace # ts)"
      using step [of "TComma # joinTokens (map ?T (kv' # kvs')) @ TRBrace # ts"] by simp
    also have "\<dots> = (case deliver fs
                 (JObj (foldl (\<lambda>acc kv. putProp (fst kv) (snd kv) acc)
                          (putProp (fst kv) (reread (snd kv)) acc)
                          (map (\<lambda>kv. (fst kv, reread (snd kv))) (kv' # kvs')))) of
            None \<Rightarrow> None | Some st \<Rightarrow> prun st ts)"
      using Cons.IH [of EKey "putProp (fst kv) (reread (snd kv)) acc"] Cons.prems(1)
      unfolding Cons by simp
    finally show ?thesis unfolding Cons by simp
  qed
qed

lemma prun_value:
  "prun (Run EValue fs) (tokensOf v @ ts) =
     (case deliver fs (reread v) of None \<Rightarrow> None | Some st \<Rightarrow> prun st ts)"
proof (induction v arbitrary: fs ts)
  case (JArr xs)
  show ?case
  proof (cases xs)
    case Nil
    then show ?thesis by simp
  next
    case (Cons y ys)
    obtain t r where t: "tokensOf y = t # r" "t \<noteq> TRBrack" using tokensOf_hd by blast
    have "prun (Run EValue fs) (tokensOf (JArr xs) @ ts) =
        prun (Run EArrStart (FArr [] # fs)) (joinTokens (map tokensOf xs) @ TRBrack # ts)"
      by simp
    also have "\<dots> = prun (Run EValue (FArr [] # fs)) (joinTokens (map tokensOf xs) @ TRBrack # ts)"
      unfolding Cons using t by (cases ys) simp_all
    also have "\<dots> = (case deliver fs (JArr (rev [] @ map reread xs)) of
            None \<Rightarrow> None | Some st \<Rightarrow> prun st ts)"
      by (rule prun_elems) (simp_all add: JArr.IH Cons)
    finally show ?thesis by simp
  qed
next
  case (JObj kvs)
  show ?case
  proof (cases kvs)
    case Nil
    then show ?thesis by simp
  next
    case (Cons kv kvs')
    have ih: "prun (Run EValue fs') (tokensOf (snd kv') @ ts') =
               (case deliver fs' (reread (snd kv')) of None \<Rightarrow> None | Some st \<Rightarrow> prun st ts')"
      if "kv' \<in> set kvs" for kv' fs' ts'
    proof -
      have "snd kv' \<in> Basic_BNFs.snds kv'" by (cases kv') simp
      then show ?thesis using JObj.IH that by blast
    qed
    have "prun (Run EValue fs) (tokensOf (JObj kvs) @ ts) =
        prun (Run EObjStart (FObj [] None # fs))
          (joinTokens (map (\<lambda>kv. TString (fst kv) # TColon # tokensOf (snd kv)) kvs) @
            TRBrace # ts)"
      by simp
    also have "\<dots> = (case deliver fs
                 (JObj (foldl (\<lambda>acc kv. putProp (fst kv) (snd kv) acc) []
                          (map (\<lambda>kv. (fst kv, reread (snd kv))) kvs))) of
            None \<Rightarrow> None | Some st \<Rightarrow> prun st ts)"
      by (rule prun_members) (simp_all add: ih Cons)
    finally show ?thesis by simp
  qed
qed simp_all

lemma JSON_parse_stringify: "JSON_parse (JSON_stringify v) = Some (reread v)"
  using prun_value [of "[]" v "[]"] by (simp add: JSON_parse_def lex_stringify)

lemma stringify_object_parses: "parsesAsObject (JSON_stringify (JObj kvs))"
  unfolding parsesAsObject_def JSON_parse_stringify by simp

section \<open>The key-value editor: the claims\<close>

lemma syncHidden_fields:
  "rows (snd (syncHidden w)) = rows w" "bound (snd (syncHidden w)) = bound w"
  "inForm (snd (syncHidden w)) = inForm w" "formBound (snd (syncHidden w)) = formBound w"
  by (simp_all add: syncHidden_def split: sum.splits)

lemma syncHidden_hidden:
  "hidden (snd (syncHidden w)) = hidden w \<or> parsesAsObject (hidden (snd (syncHidden w)))"
  by (simp add: syncHidden_def stringify_object_parses del: JSON_stringify.simps
      split: sum.splits)

lemma syncHidden_inv:
  "parsesAsObject (hidden w) \<Longrightarrow> parsesAsObject (hidden (snd (syncHidden w)))"
  using syncHidden_hidden [of w] by auto

lemma fire_inv:
  assumes "parsesAsObject (hidden w)"
  shows "parsesAsObject (hidden (snd (fire e w)))"
proof (cases e)
  case ClickAdd
  then show ?thesis using assms by (simp add: addRow_def syncHidden_inv)
next
  case (ClickRemove i)
  then show ?thesis using assms by (simp add: Let_def syncHidden_inv)
next
  case (InputKey i s)
  then show ?thesis using assms by (simp add: Let_def syncHidden_inv)
next
  case (InputVal i s)
  then show ?thesis using assms by (simp add: Let_def syncHidden_inv)
next
  case FormSubmit
  then show ?thesis using assms by (simp add: syncHidden_inv)
qed

lemma run_inv:
  "parsesAsObject (hidden w) \<Longrightarrow> parsesAsObject (hidden (run evs w))"
  by (induction evs arbitrary: w) (simp_all add: fire_inv)

lemma parse_empty_object: \<open>JSON_parse (js ''{}'') = Some (JObj [])\<close>
  by code_simp

lemma parse_empty_text: "JSON_parse [] = None"
  by code_simp

lemma blank_row: "buildRow [] (JStr []) = ([], [])"
  by (simp add: buildRow_def attrValue_def toDisplay_def)

lemma sync_blank:
  "syncHidden (w\<lparr>rows := [([], [])]\<rparr>) = (None, w\<lparr>rows := [([], [])], hidden := js ''{}''\<rparr>)"
  by (simp add: syncHidden_def syncRow_def trim_def emptyObject_def js_def)

lemma init_no_entries:
  assumes "entries (case JSON_parse (if h = [] then js ''{}'' else h) of Some v \<Rightarrow> v | None \<Rightarrow> JObj []) = Inr []"
  shows "init (freshWidget h f) =
    (None, \<lparr>rows = [([], [])], hidden = js ''{}'', bound = True, inForm = f, formBound = f\<rparr>)"
proof -
  have hid: "hidden (freshWidget h f) = h" by (simp add: freshWidget_def)
  have r: "(freshWidget h f)\<lparr>rows := []\<rparr> = freshWidget h f" by (simp add: freshWidget_def)
  have l: "loadInitial (freshWidget h f) = (None, freshWidget h f)"
    unfolding loadInitial_def Let_def hid r assms by (simp add: r)
  show ?thesis
    unfolding init_def l
    using sync_blank [of "\<lparr>rows = [], hidden = h, bound = True, inForm = f, formBound = f\<rparr>"]
    by (auto simp: freshWidget_def Let_def addRow_def blank_row)
qed

lemma init_blank:
  assumes "h = [] \<or> JSON_parse h = None"
  shows "init (freshWidget h f) =
    (None, \<lparr>rows = [([], [])], hidden = js ''{}'', bound = True, inForm = f, formBound = f\<rparr>)"
proof (rule init_no_entries)
  show "entries (case JSON_parse (if h = [] then js ''{}'' else h) of Some v \<Rightarrow> v | None \<Rightarrow> JObj []) = Inr []"
    using assms by (auto simp: parse_empty_object entries_def)
qed

lemma init_establishes:
  assumes "initialOk h"
  shows "parsesAsObject (hidden (snd (init (freshWidget h f))))"
proof -
  define data where
    "data = (case JSON_parse (if h = [] then js ''{}'' else h) of Some v \<Rightarrow> v | None \<Rightarrow> JObj [])"
  have blank: "parsesAsObject (js ''{}'')"
    by (simp add: parsesAsObject_def parse_empty_object)
  show ?thesis
  proof (cases "entries data = Inr []")
    case True
    then show ?thesis using init_no_entries [of h f] blank by (simp add: data_def)
  next
    case False
    have hne: "h \<noteq> []"
    proof
      assume "h = []"
      then have "entries data = Inr []" by (simp add: data_def parse_empty_object entries_def)
      with False show False by simp
    qed
    obtain v where v: "JSON_parse h = Some v" "data = v"
      using False hne by (cases "JSON_parse h") (auto simp: data_def entries_def)
    obtain kvs where kvs: "v = JObj kvs" "kvs \<noteq> []"
      using False assms v
      by (cases v) (auto simp: initialOk_def entries_def split: list.splits)
    have "init (freshWidget h f) =
        (None, \<lparr>rows = map (\<lambda>kv. buildRow (fst kv) (snd kv)) kvs, hidden = h, bound = True,
          inForm = f, formBound = f\<rparr>)"
      using v kvs hne
      by (simp add: init_def loadInitial_def freshWidget_def Let_def entries_def)
    then show ?thesis using v kvs by (simp add: parsesAsObject_def)
  qed
qed

text \<open>
  Claim C9 (as amended).  Let the initial value of the hidden input be one that does not
  parse to \<open>null\<close>, to a non-empty array or to a non-empty string; an empty value, an
  unparseable one and every JSON object are such.  Then after \<open>init\<close> and after every
  sequence of clicks on the add button, clicks on a remove button, edits of a key or a
  value and form submissions, the value of the hidden input parses as a JSON object.
  With an empty or unparseable initial value \<open>init\<close> leaves exactly one blank row and
  the hidden value \<open>{}\<close>.
\<close>

theorem hidden_parses_as_object:
  "(initialOk h \<longrightarrow> parsesAsObject (hidden (run evs (snd (init (freshWidget h f)))))) \<and>
   (h = [] \<or> JSON_parse h = None \<longrightarrow>
      init (freshWidget h f) =
        (None, \<lparr>rows = [([], [])], hidden = js ''{}'', bound = True, inForm = f, formBound = f\<rparr>))"
  by (simp add: run_inv init_establishes init_blank)

theorem hidden_parses_as_object_witness:
  \<open>initialOk (js ''{"a":1}'') \<and>
   hidden (run [ClickAdd, InputKey 1 (js ''b''), InputVal 1 (js ''[1, 2]''), ClickRemove 0, FormSubmit]
             (snd (init (freshWidget (js ''{"a":1}'') True)))) = js ''{"b":[1,2]}'' \<and>
   parsesAsObject (js ''{"b":[1,2]}'') \<and>
   JSON_parse (js ''{"a":'') = None \<and>
   init (freshWidget (js ''{"a":'') True) =
     (None, \<lparr>rows = [([], [])], hidden = js ''{}'', bound = True, inForm = True, formBound = True\<rparr>)\<close>
proof -
  have a: \<open>initialOk (js ''{"a":1}'')\<close> by code_simp
  have b: \<open>hidden (run [ClickAdd, InputKey 1 (js ''b''), InputVal 1 (js ''[1, 2]''), ClickRemove 0, FormSubmit]
             (snd (init (freshWidget (js ''{"a":1}'') True)))) = js ''{"b":[1,2]}''\<close>
    by code_simp
  have c: \<open>JSON_parse (js ''{"a":'') = None\<close> by code_simp
  from hidden_parses_as_object [of \<open>js ''{"a":1}''\<close>
      "[ClickAdd, InputKey 1 (js ''b''), InputVal 1 (js ''[1, 2]''), ClickRemove 0, FormSubmit]" True] a
  have d: \<open>parsesAsObject (js ''{"b":[1,2]}'')\<close> unfolding b by blast
  from hidden_parses_as_object [of \<open>js ''{"a":''\<close> "[]" True] c
  have e: \<open>init (freshWidget (js ''{"a":'') True) =
     (None, \<lparr>rows = [([], [])], hidden = js ''{}'', bound = True, inForm = True, formBound = True\<rparr>)\<close>
    by blast
  from a b c d e show ?thesis by blast
qed

text \<open>
  Claim C9 as stated fails for the initial value \<open>"x"\<close>, a JSON string: \<open>init\<close>
  makes the row \<open>("0", "x")\<close> from it, so no blank row is added and no resync runs,
  and the hidden input keeps a value that parses to a string.
\<close>

theorem hidden_not_object_after_init:
  \<open>init (freshWidget (js ''"x"'') True) =
     (None, \<lparr>rows = [(js ''0'', js ''x'')], hidden = js ''"x"'', bound = True, inForm = True,
        formBound = True\<rparr>) \<and>
   \<not> parsesAsObject (hidden (snd (init (freshWidget (js ''"x"'') True))))\<close>
  by code_simp

lemma insertIndex_keys: "fst ` set (insertIndex k v kvs) = insert k (fst ` set kvs)"
proof (induction kvs)
  case Nil
  show ?case by simp
next
  case (Cons p kvs)
  obtain k' v' where p: "p = (k', v')" by (cases p)
  show ?case
  proof (cases "isArrayIndex k' \<and> indexOf k' < indexOf k")
    case True
    then have "insertIndex k v (p # kvs) = (k', v') # insertIndex k v kvs" by (simp add: p)
    then show ?thesis using Cons.IH by (simp add: p insert_commute)
  next
    case False
    then have "insertIndex k v (p # kvs) = (k, v) # (k', v') # kvs" by (auto simp: p)
    then show ?thesis by (simp add: p)
  qed
qed

lemma replace_keys:
  "map fst (map (\<lambda>(k', v'). if k' = k then (k', v) else (k', v')) kvs) = map fst kvs"
  by (induction kvs) (simp_all add: case_prod_beta)

lemma putProp_keys: "fst ` set (putProp k v kvs) = insert k (fst ` set kvs)"
proof (cases "k \<in> fst ` set kvs")
  case True
  have "fst ` set (map (\<lambda>(k', v'). if k' = k then (k', v) else (k', v')) kvs) = fst ` set kvs"
    using replace_keys [of k v kvs] by (metis set_map)
  with True show ?thesis by (simp add: putProp_def insert_absorb)
next
  case False
  then show ?thesis by (simp add: putProp_def insertIndex_keys)
qed

lemma created_keys:
  "fst ` set (foldl (\<lambda>acc kv. putProp (fst kv) (snd kv) acc) acc doc) =
   fst ` set acc \<union> fst ` set doc"
proof (induction doc arbitrary: acc)
  case Nil
  show ?case by simp
next
  case (Cons kv doc)
  show ?case by (simp add: Cons.IH putProp_keys)
qed

text \<open>
  Where no key trims to \<open>hasOwnProperty\<close> or \<open>__proto__\<close>, \<open>syncHidden\<close> writes the
  document of the specification's fold, its properties created in the order of the fold.
\<close>

lemma resync_refines_spec_gen:
  assumes "\<forall>r \<in> set rs. trim (fst r) \<noteq> js ''hasOwnProperty'' \<and> trim (fst r) \<noteq> js ''__proto__''"
    and "js ''hasOwnProperty'' \<notin> set (map fst doc)"
  shows "syncRows \<lparr>props = foldl (\<lambda>acc kv. putProp (fst kv) (snd kv) acc) [] doc,
                    proto = ObjectPrototype\<rparr> rs =
         Inr \<lparr>props = foldl (\<lambda>acc kv. putProp (fst kv) (snd kv) acc) [] (foldl specStep doc rs),
              proto = ObjectPrototype\<rparr>"
  using assms
proof (induction rs arbitrary: doc)
  case Nil
  show ?case by simp
next
  case (Cons r rs)
  let ?put = "\<lambda>acc kv. putProp (fst kv) (snd kv) acc"
  let ?d = "\<lparr>props = foldl ?put [] doc, proto = ObjectPrototype\<rparr>"
  define k where "k = trim (fst r)"
  have k: "k \<noteq> js ''hasOwnProperty''" "k \<noteq> js ''__proto__''"
    using Cons.prems(1) by (simp_all add: k_def)
  have keys: "set (ownKeys ?d) = set (map fst doc)"
    by (simp add: ownKeys_def created_keys)
  have call: "callHasOwnProperty ?d k = Inr (k \<in> set (map fst doc))"
    using Cons.prems(2) keys by (simp add: callHasOwnProperty_def shadowedInProto_def)
  have set: "setProperty ?d k v = \<lparr>props = foldl ?put [] (doc @ [(k, v)]), proto = ObjectPrototype\<rparr>" for v
    using k by (simp add: setProperty_def)
  have step: "syncRow ?d r = Inr \<lparr>props = foldl ?put [] (specStep doc r), proto = ObjectPrototype\<rparr>"
    unfolding syncRow_def specStep_def Let_def k_def [symmetric] call
    by (simp add: set parseValue_def specDecode_def)
  have "js ''hasOwnProperty'' \<notin> set (map fst (specStep doc r))"
    using Cons.prems(2) k by (simp add: specStep_def Let_def k_def [symmetric])
  then show ?case using Cons.IH [of "specStep doc r"] Cons.prems(1) by (simp add: step)
qed

lemma resync_refines_spec:
  assumes "\<forall>r \<in> set (rows w).
             trim (fst r) \<noteq> js ''hasOwnProperty'' \<and> trim (fst r) \<noteq> js ''__proto__''"
  shows "syncHidden w =
    (None, w\<lparr>hidden := JSON_stringify
       (JObj (foldl (\<lambda>acc kv. putProp (fst kv) (snd kv) acc) [] (specResync (rows w))))\<rparr>)"
  using resync_refines_spec_gen [OF assms, of "[]"]
  by (simp add: syncHidden_def emptyObject_def specResync_def del: JSON_stringify.simps)

text \<open>
  Claim C1.  On the rows \<open>("hasOwnProperty", "1"), ("b", "2")\<close> the fold of the
  specification gives the document \<open>{"hasOwnProperty":1,"b":2}\<close>, but \<open>syncHidden\<close>
  throws a \<open>TypeError\<close> at the second row, where \<open>data.hasOwnProperty\<close> is the
  number 1, and leaves the hidden input as it was.  On the rows
  \<open>("a", "1"), ("a", "2")\<close> of the claim it writes \<open>{"a":1}\<close>.
\<close>

theorem resync_throws_on_hasOwnProperty_key:
  \<open>syncHidden \<lparr>rows = [(js ''hasOwnProperty'', js ''1''), (js ''b'', js ''2'')], hidden = h,
       bound = b, inForm = f, formBound = g\<rparr> =
     (Some TypeError,
      \<lparr>rows = [(js ''hasOwnProperty'', js ''1''), (js ''b'', js ''2'')], hidden = h,
       bound = b, inForm = f, formBound = g\<rparr>) \<and>
   specResync [(js ''hasOwnProperty'', js ''1''), (js ''b'', js ''2'')] =
     [(js ''hasOwnProperty'', JNum (Num False 1 0)), (js ''b'', JNum (Num False 2 0))] \<and>
   JSON_stringify (JObj (specResync [(js ''hasOwnProperty'', js ''1''), (js ''b'', js ''2'')])) =
     js ''{"hasOwnProperty":1,"b":2}'' \<and>
   syncHidden \<lparr>rows = [(js ''a'', js ''1''), (js ''a'', js ''2'')], hidden = h,
       bound = b, inForm = f, formBound = g\<rparr> =
     (None, \<lparr>rows = [(js ''a'', js ''1''), (js ''a'', js ''2'')], hidden = js ''{"a":1}'',
       bound = b, inForm = f, formBound = g\<rparr>)\<close>
  by code_simp

text \<open>
  Claim C5.  From the hidden value \<open>{"a":1,"b":"x"}\<close>, \<open>loadInitial\<close> makes the rows
  \<open>("a", "1"), ("b", "x")\<close>, each value in its display form, and \<open>syncHidden\<close> on
  these rows writes \<open>{"a":1,"b":"x"}\<close> again: the same keys in the same order with the
  same decoded values.
\<close>

theorem load_then_resync_roundtrip:
  \<open>loadInitial (freshWidget (js ''{"a":1,"b":"x"}'') f) =
     (None, \<lparr>rows = [(js ''a'', js ''1''), (js ''b'', js ''x'')], hidden = js ''{"a":1,"b":"x"}'',
        bound = False, inForm = f, formBound = False\<rparr>) \<and>
   syncHidden \<lparr>rows = [(js ''a'', js ''1''), (js ''b'', js ''x'')], hidden = h,
        bound = b, inForm = f, formBound = g\<rparr> =
     (None, \<lparr>rows = [(js ''a'', js ''1''), (js ''b'', js ''x'')], hidden = js ''{"a":1,"b":"x"}'',
        bound = b, inForm = f, formBound = g\<rparr>) \<and>
   JSON_parse (js ''{"a":1,"b":"x"}'') =
     Some (JObj [(js ''a'', JNum (Num False 1 0)), (js ''b'', JStr (js ''x''))]) \<and>
   toDisplay (JNum (Num False 1 0)) = js ''1'' \<and> toDisplay (JStr (js ''x'')) = js ''x'' \<and>
   JSON_parse (hidden (snd (syncHidden (snd (loadInitial (freshWidget (js ''{"a":1,"b":"x"}'') f)))))) =
     JSON_parse (js ''{"a":1,"b":"x"}'')\<close>
  by code_simp

end
